theory Spec2Isabelle
  imports Main
begin

section \<open>Python values\<close>

text \<open>
  A Python \<open>str\<close> is a sequence of Unicode code points; a \<open>bytes\<close> object is a sequence
  of numbers below 256. Both are lists of naturals here. \<open>ustr\<close> writes a literal.
\<close>

type_synonym pystr = "nat list"
type_synonym pybytes = "nat list"

definition ustr :: "string \<Rightarrow> pystr" where
  "ustr s = map of_char s"

text \<open>The exceptions that the library calls of the parser raise; all derive from \<open>Exception\<close>.\<close>

datatype exn =
  ValueError | BinasciiError | TypeError | UnicodeEncodeError | RecursionError | Exception

text \<open>\<open>try: ... except Exception as e: ...\<close>\<close>

definition try_except :: "exn + 'a \<Rightarrow> (exn \<Rightarrow> exn + 'a) \<Rightarrow> exn + 'a" where
  "try_except body handler = (case body of Inl e \<Rightarrow> handler e | Inr v \<Rightarrow> Inr v)"

text \<open>\<open>d.get(key, default)\<close> on a dictionary whose entry for \<open>key\<close> is \<open>entry\<close>.\<close>

definition dict_get :: "'a option \<Rightarrow> 'a \<Rightarrow> 'a" where
  "dict_get entry dflt = (case entry of None \<Rightarrow> dflt | Some v \<Rightarrow> v)"

section \<open>Headers\<close>

text \<open>A header of the Gmail API is a dictionary with the keys \<open>name\<close> and \<open>value\<close>.\<close>

datatype header = Header (h_name: "pystr option") (h_value: "pystr option")

text \<open>
  \<open>str.lower\<close> is a table of the Unicode database, so \<open>extract_headers\<close> takes it as a
  parameter. On ASCII strings it is \<open>ascii_lower\<close>.
\<close>

definition ascii_lower :: "pystr \<Rightarrow> pystr" where
  "ascii_lower s = map (\<lambda>c. if 65 \<le> c \<and> c \<le> 90 then c + 32 else c) s"

fun headers_loop ::
  "(pystr \<Rightarrow> pystr) \<Rightarrow> header list \<Rightarrow> (pystr \<rightharpoonup> pystr) \<Rightarrow> (pystr \<rightharpoonup> pystr)" where
  "headers_loop lower [] header_dict = header_dict"
| "headers_loop lower (header # rest) header_dict =
     (let name = lower (dict_get (h_name header) []);
          value = dict_get (h_value header) []
      in headers_loop lower rest (header_dict(name \<mapsto> value)))"

definition extract_headers :: "(pystr \<Rightarrow> pystr) \<Rightarrow> header list \<Rightarrow> (pystr \<rightharpoonup> pystr)" where
  "extract_headers lower headers = headers_loop lower headers Map.empty"

section \<open>Transport decoding\<close>

text \<open>
  \<open>base64.urlsafe_b64decode\<close> of the standard library, on a \<open>str\<close>: the string is encoded
  as ASCII (\<open>ValueError\<close> when a code point is above 127), \<open>-\<close> and \<open>_\<close> are translated to
  \<open>+\<close> and \<open>/\<close>, and \<open>binascii.a2b_base64\<close> decodes in its default, non-strict mode.

  \<open>table_a2b_base64\<close> is the decoder's table: the 6-bit value of an alphabet character,
  none for every other character.
\<close>

definition table_a2b_base64 :: "nat \<Rightarrow> nat option" where
  "table_a2b_base64 c =
     (if 65 \<le> c \<and> c \<le> 90 then Some (c - 65)
      else if 97 \<le> c \<and> c \<le> 122 then Some (c - 71)
      else if 48 \<le> c \<and> c \<le> 57 then Some (c + 4)
      else if c = 43 then Some 62
      else if c = 47 then Some 63
      else None)"

text \<open>
  The decoder's loop over the input, with its state: the position in the current group of
  four (\<open>quad_pos\<close>), the bits left over from the previous character (\<open>leftchar\<close>), the
  count of padding characters seen in a row (\<open>pads\<close>) and the output so far. A character
  outside the alphabet is skipped. Padding that completes a group ends the decoding and
  what follows is not read. At the end of the input a group that is not complete raises.
  The shifts and ors of the C code combine disjoint bit ranges, written here with
  \<open>*\<close>, \<open>div\<close>, \<open>mod\<close> and \<open>+\<close>.
\<close>

fun a2b_base64 :: "nat list \<Rightarrow> nat \<Rightarrow> nat \<Rightarrow> nat \<Rightarrow> pybytes \<Rightarrow> exn + pybytes" where
  "a2b_base64 [] quad_pos leftchar pads bin_data =
     (if quad_pos \<noteq> 0 then Inl BinasciiError else Inr bin_data)"
| "a2b_base64 (this_ch # rest) quad_pos leftchar pads bin_data =
     (if this_ch = 61 then
        (if quad_pos \<ge> 2 \<and> quad_pos + (pads + 1) \<ge> 4 then Inr bin_data
         else a2b_base64 rest quad_pos leftchar
                (if quad_pos \<ge> 2 then pads + 1 else pads) bin_data)
      else
        (case table_a2b_base64 this_ch of
           None \<Rightarrow> a2b_base64 rest quad_pos leftchar pads bin_data
         | Some v \<Rightarrow>
             (if quad_pos = 0 then a2b_base64 rest 1 v 0 bin_data
              else if quad_pos = 1 then
                a2b_base64 rest 2 (v mod 16) 0 (bin_data @ [leftchar * 4 + v div 16])
              else if quad_pos = 2 then
                a2b_base64 rest 3 (v mod 4) 0 (bin_data @ [leftchar * 16 + v div 4])
              else a2b_base64 rest 0 0 0 (bin_data @ [leftchar * 64 + v]))))"

definition urlsafe_decode_translation :: "nat \<Rightarrow> nat" where
  "urlsafe_decode_translation c = (if c = 45 then 43 else if c = 95 then 47 else c)"

definition urlsafe_b64decode :: "pystr \<Rightarrow> exn + pybytes" where
  "urlsafe_b64decode s =
     (if list_ex (\<lambda>c. c \<ge> 128) s then Inl ValueError
      else a2b_base64 (map urlsafe_decode_translation s) 0 0 0 [])"

text \<open>
  \<open>bytes.decode('utf-8', errors='ignore')\<close>: the decoder of CPython. An ill-formed
  sequence is dropped and decoding goes on behind it: an invalid start byte alone, a lead
  byte with the continuation bytes that were accepted before the invalid one, and
  everything up to the end when the input stops inside a sequence.
\<close>

definition is_continuation_byte :: "nat \<Rightarrow> bool" where
  "is_continuation_byte ch = (ch \<ge> 0x80 \<and> ch < 0xC0)"

fun utf8_decode_ignore :: "pybytes \<Rightarrow> pystr" where
  "utf8_decode_ignore [] = []"
| "utf8_decode_ignore (ch # s) =
     (if ch < 0x80 then ch # utf8_decode_ignore s
      else if ch < 0xC2 then utf8_decode_ignore s
      else if ch < 0xE0 then
        (case s of
           [] \<Rightarrow> []
         | ch2 # s2 \<Rightarrow>
             if \<not> is_continuation_byte ch2 then utf8_decode_ignore s
             else (ch * 64 + ch2 - (0xC0 * 64 + 0x80)) # utf8_decode_ignore s2)
      else if ch < 0xF0 then
        (case s of
           [] \<Rightarrow> []
         | ch2 # s2 \<Rightarrow>
             if \<not> is_continuation_byte ch2 then utf8_decode_ignore s
             else if ch = 0xE0 \<and> ch2 < 0xA0 then utf8_decode_ignore s
             else if ch = 0xED \<and> ch2 \<ge> 0xA0 then utf8_decode_ignore s
             else
               (case s2 of
                  [] \<Rightarrow> []
                | ch3 # s3 \<Rightarrow>
                    if \<not> is_continuation_byte ch3 then utf8_decode_ignore s2
                    else (ch * 4096 + ch2 * 64 + ch3 - (0xE0 * 4096 + 0x80 * 64 + 0x80))
                           # utf8_decode_ignore s3))
      else if ch < 0xF5 then
        (case s of
           [] \<Rightarrow> []
         | ch2 # s2 \<Rightarrow>
             if \<not> is_continuation_byte ch2 then utf8_decode_ignore s
             else if ch = 0xF0 \<and> ch2 < 0x90 then utf8_decode_ignore s
             else if ch = 0xF4 \<and> ch2 \<ge> 0x90 then utf8_decode_ignore s
             else
               (case s2 of
                  [] \<Rightarrow> []
                | ch3 # s3 \<Rightarrow>
                    if \<not> is_continuation_byte ch3 then utf8_decode_ignore s2
                    else
                      (case s3 of
                         [] \<Rightarrow> []
                       | ch4 # s4 \<Rightarrow>
                           if \<not> is_continuation_byte ch4 then utf8_decode_ignore s3
                           else (ch * 262144 + ch2 * 4096 + ch3 * 64 + ch4
                                   - (0xF0 * 262144 + 0x80 * 4096 + 0x80 * 64 + 0x80))
                                  # utf8_decode_ignore s4)))
      else utf8_decode_ignore s)"

text \<open>
  \<open>decode_body\<close>: both steps run inside the \<open>try\<close>; the handler prints and returns the
  empty string. The printed diagnostics are not part of the model.
\<close>

definition decode_body :: "pystr \<Rightarrow> exn + pystr" where
  "decode_body encoded_body =
     try_except
       (case urlsafe_b64decode encoded_body of
          Inl e \<Rightarrow> Inl e
        | Inr decoded_bytes \<Rightarrow> Inr (utf8_decode_ignore decoded_bytes))
       (\<lambda>e. Inr [])"

text \<open>
  \<open>clean_html\<close>: the converter of the \<open>html2text\<close> package is a parameter, a function
  that returns the text or raises.
\<close>

type_synonym converter = "pystr \<Rightarrow> exn + pystr"

definition clean_html :: "converter \<Rightarrow> pystr \<Rightarrow> exn + pystr" where
  "clean_html html_converter html_content =
     try_except (html_converter html_content) (\<lambda>e. Inr html_content)"

section \<open>Body extraction\<close>

text \<open>
  A payload, and each of its parts, is a dictionary in which every key may be absent:
  \<open>headers\<close>, \<open>mimeType\<close>, \<open>body\<close> (a dictionary with the key \<open>data\<close>) and \<open>parts\<close>.
\<close>

datatype msg_body = Body (data: "pystr option")

datatype part =
  Part (headers: "header list option") (mimeType: "pystr option")
       (body: "msg_body option") (parts: "part list option")

definition text_plain :: pystr where
  "text_plain = ustr ''text/plain''"

definition text_html :: pystr where
  "text_html = ustr ''text/html''"

text \<open>\<open>sep.join(xs)\<close>, and the separator of two newlines.\<close>

fun str_join :: "pystr \<Rightarrow> pystr list \<Rightarrow> pystr" where
  "str_join sep [] = []"
| "str_join sep [x] = x"
| "str_join sep (x # y # ys) = x @ sep @ str_join sep (y # ys)"

definition two_newlines :: pystr where
  "two_newlines = [10, 10]"

text \<open>
  \<open>_extract_from_parts\<close>: \<open>parts_loop\<close> is the \<open>for\<close> loop with the list \<open>texts\<close> that it
  appends to; an exception of a call leaves the loop. \<open>filter(None, texts)\<close> keeps the
  non-empty strings.
\<close>

fun extract_from_parts :: "converter \<Rightarrow> part list \<Rightarrow> exn + pystr"
  and parts_loop :: "converter \<Rightarrow> part list \<Rightarrow> pystr list \<Rightarrow> exn + pystr list" where
  "extract_from_parts html_converter ps =
     (case parts_loop html_converter ps [] of
        Inl e \<Rightarrow> Inl e
      | Inr texts \<Rightarrow> Inr (str_join two_newlines (filter (\<lambda>t. t \<noteq> []) texts)))"
| "parts_loop html_converter [] texts = Inr texts"
| "parts_loop html_converter (Part hs mt b sub # rest) texts =
     (let mime_type = dict_get mt [] in
      case sub of
        Some children \<Rightarrow>
          (case extract_from_parts html_converter children of
             Inl e \<Rightarrow> Inl e
           | Inr t \<Rightarrow> parts_loop html_converter rest (texts @ [t]))
      | None \<Rightarrow>
          if mime_type \<in> set [text_plain, text_html] then
            (case data (dict_get b (Body None)) of
               Some body_data \<Rightarrow>
                 (case decode_body body_data of
                    Inl e \<Rightarrow> Inl e
                  | Inr decoded \<Rightarrow>
                      if mime_type = text_html then
                        (case clean_html html_converter decoded of
                           Inl e \<Rightarrow> Inl e
                         | Inr cleaned \<Rightarrow> parts_loop html_converter rest (texts @ [cleaned]))
                      else parts_loop html_converter rest (texts @ [decoded]))
             | None \<Rightarrow> parts_loop html_converter rest texts)
          else parts_loop html_converter rest texts)"

text \<open>
  \<open>extract_body\<close>: \<open>extract_body_rest\<close> is what follows the first \<open>if\<close> statement, reached
  when the payload has no \<open>body\<close>, the body no \<open>data\<close>, or the data is empty.
\<close>

definition extract_body_rest :: "converter \<Rightarrow> part \<Rightarrow> exn + pystr" where
  "extract_body_rest html_converter payload =
     (case parts payload of
        Some ps \<Rightarrow> extract_from_parts html_converter ps
      | None \<Rightarrow> Inr [])"

definition extract_body :: "converter \<Rightarrow> part \<Rightarrow> exn + pystr" where
  "extract_body html_converter payload =
     (case body payload of
        None \<Rightarrow> extract_body_rest html_converter payload
      | Some b \<Rightarrow>
          (case data b of
             None \<Rightarrow> extract_body_rest html_converter payload
           | Some body_data \<Rightarrow>
               if body_data \<noteq> [] then decode_body body_data
               else extract_body_rest html_converter payload))"

text \<open>
  Two readings of the loop, for the statements below: \<open>part_texts\<close> is the list that the
  loop has appended when it ends, and \<open>child_text\<close> is the extraction of one part of the
  list on its own.
\<close>

definition part_texts :: "converter \<Rightarrow> part list \<Rightarrow> pystr list" where
  "part_texts html_converter ps =
     (case parts_loop html_converter ps [] of Inl e \<Rightarrow> [] | Inr texts \<Rightarrow> texts)"

definition child_text :: "converter \<Rightarrow> part \<Rightarrow> pystr" where
  "child_text html_converter p =
     (case extract_from_parts html_converter [p] of Inl e \<Rightarrow> [] | Inr t \<Rightarrow> t)"

section \<open>The interpreter's call stack\<close>

text \<open>
  Each call of \<open>_extract_from_parts\<close> takes a frame of the interpreter, one per level of
  nesting, and a call for which no frame is left raises \<open>RecursionError\<close>; no \<open>try\<close> of
  the parser is around that call. \<open>frames\<close> is the number of calls of
  \<open>_extract_from_parts\<close> that may still be nested when the function is called. The
  frames that a leaf takes for \<open>decode_body\<close> and \<open>clean_html\<close> are not counted.
  Where the frames suffice, these functions are the ones above.
\<close>

fun extract_from_parts_frames :: "converter \<Rightarrow> nat \<Rightarrow> part list \<Rightarrow> exn + pystr"
  and parts_loop_frames ::
    "converter \<Rightarrow> nat \<Rightarrow> part list \<Rightarrow> pystr list \<Rightarrow> exn + pystr list" where
  "extract_from_parts_frames html_converter 0 ps = Inl RecursionError"
| "extract_from_parts_frames html_converter (Suc frames) ps =
     (case parts_loop_frames html_converter frames ps [] of
        Inl e \<Rightarrow> Inl e
      | Inr texts \<Rightarrow> Inr (str_join two_newlines (filter (\<lambda>t. t \<noteq> []) texts)))"
| "parts_loop_frames html_converter frames [] texts = Inr texts"
| "parts_loop_frames html_converter frames (Part hs mt b sub # rest) texts =
     (let mime_type = dict_get mt [] in
      case sub of
        Some children \<Rightarrow>
          (case extract_from_parts_frames html_converter frames children of
             Inl e \<Rightarrow> Inl e
           | Inr t \<Rightarrow> parts_loop_frames html_converter frames rest (texts @ [t]))
      | None \<Rightarrow>
          if mime_type \<in> set [text_plain, text_html] then
            (case data (dict_get b (Body None)) of
               Some body_data \<Rightarrow>
                 (case decode_body body_data of
                    Inl e \<Rightarrow> Inl e
                  | Inr decoded \<Rightarrow>
                      if mime_type = text_html then
                        (case clean_html html_converter decoded of
                           Inl e \<Rightarrow> Inl e
                         | Inr cleaned \<Rightarrow>
                             parts_loop_frames html_converter frames rest (texts @ [cleaned]))
                      else parts_loop_frames html_converter frames rest (texts @ [decoded]))
             | None \<Rightarrow> parts_loop_frames html_converter frames rest texts)
          else parts_loop_frames html_converter frames rest texts)"

definition extract_body_rest_frames :: "converter \<Rightarrow> nat \<Rightarrow> part \<Rightarrow> exn + pystr" where
  "extract_body_rest_frames html_converter frames payload =
     (case parts payload of
        Some ps \<Rightarrow> extract_from_parts_frames html_converter frames ps
      | None \<Rightarrow> Inr [])"

definition extract_body_frames :: "converter \<Rightarrow> nat \<Rightarrow> part \<Rightarrow> exn + pystr" where
  "extract_body_frames html_converter frames payload =
     (case body payload of
        None \<Rightarrow> extract_body_rest_frames html_converter frames payload
      | Some b \<Rightarrow>
          (case data b of
             None \<Rightarrow> extract_body_rest_frames html_converter frames payload
           | Some body_data \<Rightarrow>
               if body_data \<noteq> [] then decode_body body_data
               else extract_body_rest_frames html_converter frames payload))"

text \<open>
  The frames that a list of parts needs: one for the call on the list, and those of the
  deepest list of children in it. \<open>payload_frames\<close> is the same for a payload, and
  \<open>nested_parts n\<close> is a list of one part nested \<open>n\<close> times around the empty list.
\<close>

fun frames_needed :: "part list \<Rightarrow> nat"
  and nested_frames :: "part list \<Rightarrow> nat" where
  "frames_needed ps = Suc (nested_frames ps)"
| "nested_frames [] = 0"
| "nested_frames (Part hs mt b sub # rest) =
     max (case sub of None \<Rightarrow> 0 | Some children \<Rightarrow> frames_needed children)
         (nested_frames rest)"

definition payload_frames :: "part \<Rightarrow> nat" where
  "payload_frames payload = (case parts payload of None \<Rightarrow> 0 | Some ps \<Rightarrow> frames_needed ps)"

fun nested_parts :: "nat \<Rightarrow> part list" where
  "nested_parts 0 = []"
| "nested_parts (Suc n) = [Part None None None (Some (nested_parts n))]"

section \<open>Dates and the parsed message\<close>

text \<open>
  \<open>parse_date\<close>: \<open>email.utils.parsedate_to_datetime\<close> is a parameter, a function that
  returns a datetime (a value of any type \<open>'dt\<close>) or raises. The handler prints a
  message that contains \<open>date_str\<close> before it returns \<open>None\<close>, outside any \<open>try\<close>;
  \<open>print_error date_str e\<close> is that call of \<open>print\<close>, which raises when the output
  stream cannot encode the message. The handlers of \<open>decode_body\<close> and \<open>clean_html\<close>
  print the exception of the library alone, and their prints are not part of the model.
\<close>

definition parse_date ::
  "(pystr \<Rightarrow> exn + 'dt) \<Rightarrow> (pystr \<Rightarrow> exn \<Rightarrow> exn + unit) \<Rightarrow> pystr \<Rightarrow> exn + 'dt option" where
  "parse_date parsedate_to_datetime print_error date_str =
     try_except
       (case parsedate_to_datetime date_str of
          Inl e \<Rightarrow> Inl e
        | Inr d \<Rightarrow> Inr (Some d))
       (\<lambda>e. case print_error date_str e of
              Inl e' \<Rightarrow> Inl e'
            | Inr u \<Rightarrow> Inr None)"

text \<open>A message of the Gmail API; the key \<open>id\<close> is the field \<open>msg_id\<close>.\<close>

datatype message =
  Message (msg_id: "pystr option") (threadId: "pystr option")
          (payload: "part option") (snippet: "pystr option")

text \<open>
  \<open>parse_message\<close> returns a dictionary from its eight keys to strings. A datetime is
  always true in a condition, so \<open>date\<close> is empty exactly when there is no parsed date.
  \<open>frames\<close> is the number of frames left for \<open>_extract_from_parts\<close> when the message is
  parsed.
\<close>

definition parse_message ::
  "(pystr \<Rightarrow> pystr) \<Rightarrow> converter \<Rightarrow> (pystr \<Rightarrow> exn + 'dt) \<Rightarrow> ('dt \<Rightarrow> pystr)
     \<Rightarrow> (pystr \<Rightarrow> exn \<Rightarrow> exn + unit) \<Rightarrow> nat \<Rightarrow> message
     \<Rightarrow> exn + (string \<rightharpoonup> pystr)" where
  "parse_message lower html_converter parsedate_to_datetime isoformat print_error frames message =
     (let message_id = dict_get (msg_id message) [];
          thread_id = dict_get (threadId message) [];
          pl = dict_get (payload message) (Part None None None None);
          hdrs = extract_headers lower (dict_get (headers pl) [])
      in case extract_body_frames html_converter frames pl of
           Inl e \<Rightarrow> Inl e
         | Inr body_text \<Rightarrow>
             (let date_str = dict_get (hdrs (ustr ''date'')) [] in
              case (if date_str \<noteq> []
                    then parse_date parsedate_to_datetime print_error date_str
                    else Inr None) of
                Inl e \<Rightarrow> Inl e
              | Inr parsed_date \<Rightarrow>
                  Inr [''id'' \<mapsto> message_id,
                       ''thread_id'' \<mapsto> thread_id,
                       ''subject'' \<mapsto> dict_get (hdrs (ustr ''subject'')) (ustr ''No Subject''),
                       ''sender'' \<mapsto> dict_get (hdrs (ustr ''from'')) (ustr ''Unknown''),
                       ''to'' \<mapsto> dict_get (hdrs (ustr ''to'')) [],
                       ''date'' \<mapsto> (case parsed_date of Some d \<Rightarrow> isoformat d | None \<Rightarrow> []),
                       ''body'' \<mapsto> body_text,
                       ''snippet'' \<mapsto> dict_get (snippet message) []]))"

section \<open>Metadata\<close>

text \<open>
  The whitespace of \<open>str.split\<close> and of \<open>\s\<close> in a pattern on \<open>str\<close>: the code points for
  which \<open>str.isspace\<close> holds.
\<close>

definition isspace :: "nat \<Rightarrow> bool" where
  "isspace c =
     ((0x09 \<le> c \<and> c \<le> 0x0D) \<or> (0x1C \<le> c \<and> c \<le> 0x20) \<or> c = 0x85 \<or> c = 0xA0
      \<or> c = 0x1680 \<or> (0x2000 \<le> c \<and> c \<le> 0x200A) \<or> c = 0x2028 \<or> c = 0x2029
      \<or> c = 0x202F \<or> c = 0x205F \<or> c = 0x3000)"

text \<open>\<open>s.split()\<close>: skip whitespace, take the characters up to the next whitespace, repeat.\<close>

function str_split :: "pystr \<Rightarrow> pystr list" where
  "str_split s =
     (case dropWhile isspace s of
        [] \<Rightarrow> []
      | c # cs \<Rightarrow>
          (c # takeWhile (\<lambda>x. \<not> isspace x) cs) # str_split (dropWhile (\<lambda>x. \<not> isspace x) cs))"
  by pat_completeness auto
termination
proof (relation "measure length")
  show "wf (measure length)" by simp
next
  fix s :: pystr and c cs
  assume a: "dropWhile isspace s = c # cs"
  have "length (dropWhile (\<lambda>x. \<not> isspace x) cs) \<le> length cs"
    by (rule length_dropWhile_le)
  also have "length cs < length (dropWhile isspace s)"
    by (simp add: a)
  also have "length (dropWhile isspace s) \<le> length s"
    by (rule length_dropWhile_le)
  finally show "(dropWhile (\<lambda>x. \<not> isspace x) cs, s) \<in> measure length"
    by simp
qed

text \<open>
  \<open>extract_urls\<close>: \<open>url_match\<close> is the match of the pattern at the start of a string. After
  \<open>http\<close> an \<open>s\<close> is taken when there is one, then \<open>://\<close> must follow, then at least one
  character outside the excluded class, as many as there are. The class excludes
  whitespace and the code points 60, 62 (angle brackets), 34 (double quote), 123, 125
  (braces), 124 (bar), 92 (backslash), 94 (caret), 96 (backquote), 91 and 93 (square
  brackets). \<open>re.findall\<close> looks for a
  match at each position from the left and goes on behind a match.
\<close>

definition url_char :: "nat \<Rightarrow> bool" where
  "url_char c = (\<not> isspace c \<and> c \<notin> set [60, 62, 34, 123, 125, 124, 92, 94, 96, 91, 93])"

definition url_match :: "pystr \<Rightarrow> pystr option" where
  "url_match s =
     (if take 4 s = ustr ''http'' then
        (let n = (if take 1 (drop 4 s) = ustr ''s'' then 5 else 4);
             rest = takeWhile url_char (drop (n + 3) s)
         in if take 3 (drop n s) = ustr ''://'' \<and> rest \<noteq> []
            then Some (take (n + 3) s @ rest) else None)
      else None)"

function extract_urls :: "pystr \<Rightarrow> pystr list" where
  "extract_urls [] = []"
| "extract_urls (c # cs) =
     (case url_match (c # cs) of
        Some m \<Rightarrow> m # extract_urls (drop (length m) (c # cs))
      | None \<Rightarrow> extract_urls cs)"
  by pat_completeness auto
termination
proof (relation "measure length")
  show "wf (measure length)" by simp
next
  fix c :: nat and cs m
  assume "url_match (c # cs) = Some m"
  then have "m \<noteq> []"
    by (auto simp: url_match_def Let_def split: if_splits)
  then show "(drop (length m) (c # cs), c # cs) \<in> measure length"
    by (cases m) simp_all
next
  fix c :: nat and cs
  show "(cs, c # cs) \<in> measure length" by simp
qed

record metadata =
  word_count :: int
  char_count :: int
  has_attachments :: bool
  url_count :: int
  estimated_read_time_minutes :: int

definition calculate_metadata :: "(string \<rightharpoonup> pystr) \<Rightarrow> metadata" where
  "calculate_metadata parsed_email =
     (let body_text = dict_get (parsed_email ''body'') [];
          words = str_split body_text
      in \<lparr> word_count = int (length words),
           char_count = int (length body_text),
           has_attachments = False,
           url_count = int (length (extract_urls body_text)),
           estimated_read_time_minutes = max 1 (int (length words) div 200) \<rparr>)"

section \<open>Sender name\<close>

text \<open>
  \<open>re.match(r'^(.+?)\s*<', sender)\<close>: the group takes at least one character, none of them
  a newline, and as few as possible; behind it come whitespace and \<open><\<close>. \<open>lazy_group\<close>
  tries the group \<open>acc\<close> and lengthens it by one character when the rest does not match.
\<close>

definition ws_lt_match :: "pystr \<Rightarrow> bool" where
  "ws_lt_match r = (case dropWhile isspace r of [] \<Rightarrow> False | c # cs \<Rightarrow> c = 60)"

fun lazy_group :: "pystr \<Rightarrow> pystr \<Rightarrow> pystr option" where
  "lazy_group acc [] = None"
| "lazy_group acc (c # cs) =
     (if ws_lt_match (c # cs) then Some acc
      else if c = 10 then None
      else lazy_group (acc @ [c]) cs)"

definition sender_name_match :: "pystr \<Rightarrow> pystr option" where
  "sender_name_match sender =
     (case sender of
        [] \<Rightarrow> None
      | c # cs \<Rightarrow> if c = 10 then None else lazy_group [c] cs)"

text \<open>\<open>s.strip(ch)\<close> for one character \<open>ch\<close>.\<close>

definition str_strip :: "nat \<Rightarrow> pystr \<Rightarrow> pystr" where
  "str_strip ch s = rev (dropWhile (\<lambda>c. c = ch) (rev (dropWhile (\<lambda>c. c = ch) s)))"

definition extract_sender_name :: "pystr \<Rightarrow> pystr" where
  "extract_sender_name sender =
     (case sender_name_match sender of
        Some g \<Rightarrow> str_strip 34 g
      | None \<Rightarrow> sender)"

section \<open>Encoders of the standard library\<close>

text \<open>
  The round trip is stated against \<open>str.encode('utf-8')\<close> and
  \<open>base64.urlsafe_b64encode\<close>, with which the tests of the repository build an encoded
  body. A string can be encoded when its code points are scalar values.
\<close>

definition scalar_value :: "nat \<Rightarrow> bool" where
  "scalar_value cp = (cp < 0xD800 \<or> (0xE000 \<le> cp \<and> cp < 0x110000))"

definition utf8_encode_cp :: "nat \<Rightarrow> pybytes" where
  "utf8_encode_cp cp =
     (if cp < 0x80 then [cp]
      else if cp < 0x800 then [0xC0 + cp div 64, 0x80 + cp mod 64]
      else if cp < 0x10000 then
        [0xE0 + cp div 4096, 0x80 + cp div 64 mod 64, 0x80 + cp mod 64]
      else [0xF0 + cp div 262144, 0x80 + cp div 4096 mod 64,
            0x80 + cp div 64 mod 64, 0x80 + cp mod 64])"

definition utf8_encode :: "pystr \<Rightarrow> pybytes" where
  "utf8_encode t = concat (map utf8_encode_cp t)"

definition urlsafe_b64_char :: "nat \<Rightarrow> nat" where
  "urlsafe_b64_char v =
     (if v < 26 then 65 + v
      else if v < 52 then 71 + v
      else if v < 62 then v - 4
      else if v = 62 then 45
      else 95)"

fun urlsafe_b64encode :: "pybytes \<Rightarrow> pystr" where
  "urlsafe_b64encode [] = []"
| "urlsafe_b64encode [a] =
     [urlsafe_b64_char (a div 4), urlsafe_b64_char (a mod 4 * 16), 61, 61]"
| "urlsafe_b64encode [a, b] =
     [urlsafe_b64_char (a div 4), urlsafe_b64_char (a mod 4 * 16 + b div 16),
      urlsafe_b64_char (b mod 16 * 4), 61]"
| "urlsafe_b64encode (a # b # c # rest) =
     [urlsafe_b64_char (a div 4), urlsafe_b64_char (a mod 4 * 16 + b div 16),
      urlsafe_b64_char (b mod 16 * 4 + c div 64), urlsafe_b64_char (c mod 64)]
     @ urlsafe_b64encode rest"

text \<open>A converter that raises on every input; it stands for the package in closed
  examples.\<close>

definition failing_converter :: converter where
  "failing_converter html_content = Inl Exception"

section \<open>Tokens, as the specification counts them\<close>

text \<open>
  The number of whitespace-delimited tokens of a string, in the specification's words: a
  token starts at each character that is not whitespace and does not follow another such
  character. \<open>in_token\<close> says that the previous character was not whitespace.
\<close>

fun count_tokens :: "bool \<Rightarrow> pystr \<Rightarrow> nat" where
  "count_tokens in_token [] = 0"
| "count_tokens in_token (c # cs) =
     (if isspace c then count_tokens False cs
      else (if in_token then 0 else 1) + count_tokens True cs)"

text \<open>
  \<open>s.rstrip()\<close>: the string without its trailing whitespace, for the statement about
  the sender name.
\<close>

definition str_rstrip :: "pystr \<Rightarrow> pystr" where
  "str_rstrip s = rev (dropWhile isspace (rev s))"

section \<open>Header normalisation\<close>

lemma headers_loop_lookup:
  "headers_loop lower hs d k =
     (case filter (\<lambda>h. lower (dict_get (h_name h) []) = k) hs of
        [] \<Rightarrow> d k
      | f # fs \<Rightarrow> Some (dict_get (h_value (last (f # fs))) []))"
proof (induction hs arbitrary: d)
  case Nil
  show ?case by simp
next
  case (Cons h hs)
  show ?case
    by (simp add: Cons.IH Let_def split: list.splits)
qed

text \<open>
  C6. The header dictionary is built in input order with the lower-cased name as key, so
  a key holds the value of the last header whose lower-cased name is that key, and is
  absent when there is none. The pairs (Subject, A), (subject, B) give the dictionary
  with the single entry subject: B.
\<close>

theorem C6_extract_headers_last_wins:
  "extract_headers lower hs k =
     (case filter (\<lambda>h. lower (dict_get (h_name h) []) = k) hs of
        [] \<Rightarrow> None
      | f # fs \<Rightarrow> Some (dict_get (h_value (last (f # fs))) []))
   \<and> extract_headers ascii_lower
        [Header (Some (ustr ''Subject'')) (Some (ustr ''A'')),
         Header (Some (ustr ''subject'')) (Some (ustr ''B''))]
      = [ustr ''subject'' \<mapsto> ustr ''B'']"
proof
  show "extract_headers lower hs k =
     (case filter (\<lambda>h. lower (dict_get (h_name h) []) = k) hs of
        [] \<Rightarrow> None
      | f # fs \<Rightarrow> Some (dict_get (h_value (last (f # fs))) []))"
    unfolding extract_headers_def by (simp add: headers_loop_lookup)
  show "extract_headers ascii_lower
        [Header (Some (ustr ''Subject'')) (Some (ustr ''A'')),
         Header (Some (ustr ''subject'')) (Some (ustr ''B''))]
      = [ustr ''subject'' \<mapsto> ustr ''B'']"
    by (simp add: extract_headers_def ascii_lower_def ustr_def dict_get_def)
qed

section \<open>Decoding and extraction never raise\<close>

lemma decode_body_Inr:
  "decode_body e = Inr (case urlsafe_b64decode e of Inl x \<Rightarrow> [] | Inr bs \<Rightarrow> utf8_decode_ignore bs)"
  by (simp add: decode_body_def try_except_def split: sum.splits)

lemma clean_html_Inr:
  "clean_html h s = Inr (case h s of Inl x \<Rightarrow> s | Inr t \<Rightarrow> t)"
  by (simp add: clean_html_def try_except_def split: sum.splits)

lemma parts_loop_total:
  "\<exists>ts. length ts \<le> length qs \<and> (\<forall>texts. parts_loop h qs texts = Inr (texts @ ts))"
proof (induction "size_list size qs" arbitrary: qs rule: less_induct)
  case less
  show ?case
  proof (cases qs)
    case Nil
    then show ?thesis by simp
  next
    case (Cons p rest)
    obtain hs mt b sub where p: "p = Part hs mt b sub" by (cases p)
    have "size_list size rest < size_list size qs" using Cons by simp
    from less[OF this] obtain ts
      where ts: "\<forall>texts. parts_loop h rest texts = Inr (texts @ ts)"
        and len: "length ts \<le> length rest" by blast
    show ?thesis
    proof (cases sub)
      case (Some children)
      have "size_list size children < size_list size qs" using Cons p Some by simp
      from less[OF this] obtain cs
        where cs: "\<forall>texts. parts_loop h children texts = Inr (texts @ cs)" by blast
      then have "parts_loop h children [] = Inr cs" by simp
      then have "\<forall>texts. parts_loop h qs texts
          = Inr (texts @ (str_join two_newlines (filter (\<lambda>t. t \<noteq> []) cs) # ts))"
        using Cons p Some ts by simp
      then show ?thesis using len Cons by force
    next
      case None
      show ?thesis
      proof (cases "dict_get mt [] \<in> set [text_plain, text_html]")
        case False
        then have "\<forall>texts. parts_loop h qs texts = Inr (texts @ ts)"
          using Cons p None ts by (simp del: extract_from_parts.simps)
        then show ?thesis using len Cons by force
      next
        case True
        show ?thesis
        proof (cases "data (dict_get b (Body None))")
          case None2: None
          have "\<forall>texts. parts_loop h qs texts = Inr (texts @ ts)"
            using Cons p None None2 True ts by (simp del: extract_from_parts.simps)
          then show ?thesis using len Cons by force
        next
          case (Some body_data)
          obtain d where d: "decode_body body_data = Inr d"
            using decode_body_Inr by blast
          obtain c where c: "clean_html h d = Inr c"
            using clean_html_Inr by blast
          have "\<forall>texts. parts_loop h qs texts
                  = Inr (texts @ ((if dict_get mt [] = text_html then c else d) # ts))"
            using Cons p None Some True ts d c by (simp del: extract_from_parts.simps)
          then show ?thesis using len Cons by force
        qed
      qed
    qed
  qed
qed


lemma parts_loop_append:
  "parts_loop h qs texts = Inr (texts @ part_texts h qs)"
proof -
  obtain ts where ts: "\<forall>texts. parts_loop h qs texts = Inr (texts @ ts)"
    using parts_loop_total by blast
  then have "part_texts h qs = ts" by (simp add: part_texts_def)
  with ts show ?thesis by simp
qed

lemma length_part_texts: "length (part_texts h qs) \<le> length qs"
proof -
  obtain ts where "length ts \<le> length qs" and "\<forall>texts. parts_loop h qs texts = Inr (texts @ ts)"
    using parts_loop_total by blast
  then show ?thesis by (simp add: part_texts_def)
qed

lemma extract_from_parts_eq:
  "extract_from_parts h ps = Inr (str_join two_newlines (filter (\<lambda>t. t \<noteq> []) (part_texts h ps)))"
  by (simp add: parts_loop_append)

lemma parts_loop_Cons:
  "parts_loop h (p # rest) texts = parts_loop h rest (texts @ part_texts h [p])"
proof -
  have "parts_loop h (p # rest) texts
        = (case parts_loop h [p] texts of Inl e \<Rightarrow> Inl e | Inr t \<Rightarrow> parts_loop h rest t)"
    by (cases p)
       (simp add: Let_def del: extract_from_parts.simps split: option.splits sum.splits)
  then show ?thesis by (simp add: parts_loop_append)
qed

lemma part_texts_Cons:
  "part_texts h (p # rest) = part_texts h [p] @ part_texts h rest"
proof -
  have "parts_loop h (p # rest) [] = Inr (part_texts h [p] @ part_texts h rest)"
    by (subst parts_loop_Cons) (simp add: parts_loop_append)
  then show ?thesis by (simp add: part_texts_def)
qed

lemma child_text_eq:
  "child_text h p = str_join two_newlines (filter (\<lambda>t. t \<noteq> []) (part_texts h [p]))"
  by (simp add: child_text_def extract_from_parts_eq del: extract_from_parts.simps)

lemma filter_single_join:
  "length xs \<le> 1 \<Longrightarrow>
   filter (\<lambda>t. t \<noteq> []) [str_join sep (filter (\<lambda>t. t \<noteq> []) xs)] = filter (\<lambda>t. t \<noteq> []) xs"
  by (cases xs) auto

lemma filter_part_texts:
  "filter (\<lambda>t. t \<noteq> []) (part_texts h ps) = filter (\<lambda>t. t \<noteq> []) (map (child_text h) ps)"
proof (induction ps)
  case Nil
  show ?case by (simp add: part_texts_def)
next
  case (Cons p ps)
  have "length (part_texts h [p]) \<le> 1"
    using length_part_texts[of h "[p]"] by simp
  then have one: "filter (\<lambda>t. t \<noteq> []) [child_text h p] = filter (\<lambda>t. t \<noteq> []) (part_texts h [p])"
    unfolding child_text_eq by (rule filter_single_join)
  have "filter (\<lambda>t. t \<noteq> []) (part_texts h (p # ps))
        = filter (\<lambda>t. t \<noteq> []) (part_texts h [p]) @ filter (\<lambda>t. t \<noteq> []) (part_texts h ps)"
    by (simp only: part_texts_Cons[of h p ps] filter_append)
  also have "\<dots> = filter (\<lambda>t. t \<noteq> []) [child_text h p]
                  @ filter (\<lambda>t. t \<noteq> []) (map (child_text h) ps)"
    by (simp only: one Cons.IH)
  also have "\<dots> = filter (\<lambda>t. t \<noteq> []) (map (child_text h) (p # ps))"
    by simp
  finally show ?case .
qed


section \<open>Properties of body extraction\<close>

lemmas eval_defs =
  extract_body_def extract_body_rest_def decode_body_def urlsafe_b64decode_def
  urlsafe_decode_translation_def table_a2b_base64_def try_except_def clean_html_def
  is_continuation_byte_def dict_get_def text_plain_def text_html_def ustr_def
  two_newlines_def Let_def

text \<open>
  C5. The extraction of a list of parts is the join, with two newlines, of the non-empty
  extractions of its parts in their order; so is the extraction of a payload that has
  only parts. Three parts that yield A, the empty string and B give A, two newlines, B.
\<close>

theorem C5_join_nonempty_children:
  "extract_from_parts h ps
     = Inr (str_join two_newlines (filter (\<lambda>t. t \<noteq> []) (map (child_text h) ps)))
   \<and> extract_body h (Part hs mt None (Some ps))
     = Inr (str_join two_newlines (filter (\<lambda>t. t \<noteq> []) (map (child_text h) ps)))
   \<and> extract_body h
        (Part None None None
           (Some [Part None (Some text_plain) (Some (Body (Some (ustr ''QQ=='')))) None,
                  Part None (Some text_plain) (Some (Body (Some []))) None,
                  Part None (Some text_plain) (Some (Body (Some (ustr ''Qg=='')))) None]))
     = Inr [65, 10, 10, 66]"
proof (intro conjI)
  show a: "extract_from_parts h ps
     = Inr (str_join two_newlines (filter (\<lambda>t. t \<noteq> []) (map (child_text h) ps)))"
    by (simp only: extract_from_parts_eq filter_part_texts)
  show "extract_body h (Part hs mt None (Some ps))
     = Inr (str_join two_newlines (filter (\<lambda>t. t \<noteq> []) (map (child_text h) ps)))"
    using a by (simp add: extract_body_def extract_body_rest_def del: extract_from_parts.simps)
  show "extract_body h
        (Part None None None
           (Some [Part None (Some text_plain) (Some (Body (Some (ustr ''QQ=='')))) None,
                  Part None (Some text_plain) (Some (Body (Some []))) None,
                  Part None (Some text_plain) (Some (Body (Some (ustr ''Qg=='')))) None]))
     = Inr [65, 10, 10, 66]"
    by (simp add: eval_defs)
qed

lemma extract_from_parts_nested:
  "extract_from_parts h [Part hs mt b (Some children)] = extract_from_parts h children"
proof -
  obtain t where t: "extract_from_parts h children = Inr t"
    using extract_from_parts_eq by blast
  have "t = [] \<or> t \<noteq> []" by simp
  then have "extract_from_parts h [Part hs mt b (Some children)] = Inr t"
    unfolding extract_from_parts.simps[of h "[Part hs mt b (Some children)]"]
    using t by (auto simp del: extract_from_parts.simps)
  with t show ?thesis by simp
qed

lemma part_texts_append:
  "part_texts h (xs @ ys) = part_texts h xs @ part_texts h ys"
proof (induction xs)
  case Nil
  show ?case by (simp add: part_texts_def)
next
  case (Cons p xs)
  have "part_texts h ((p # xs) @ ys) = part_texts h [p] @ part_texts h (xs @ ys)"
    using part_texts_Cons[of h p "xs @ ys"] by simp
  also have "\<dots> = part_texts h [p] @ part_texts h xs @ part_texts h ys"
    by (simp only: Cons.IH)
  also have "\<dots> = part_texts h (p # xs) @ part_texts h ys"
    using part_texts_Cons[of h p xs] by simp
  finally show ?case .
qed

lemma child_text_nested:
  "child_text h (Part hs mt b (Some children))
     = str_join two_newlines (filter (\<lambda>t. t \<noteq> []) (map (child_text h) children))"
proof -
  have "extract_from_parts h [Part hs mt b (Some children)] = extract_from_parts h children"
    by (rule extract_from_parts_nested)
  also have "\<dots> = Inr (str_join two_newlines
                        (filter (\<lambda>t. t \<noteq> []) (map (child_text h) children)))"
    by (simp only: extract_from_parts_eq filter_part_texts)
  finally show ?thesis
    unfolding child_text_def by (simp del: extract_from_parts.simps)
qed

text \<open>
  C10. A payload with non-empty body data and a list of parts yields the decoded body
  data alone, whatever the parts are. In a list, a part with children yields the
  extraction of its children, which is the join of what they yield, and its own body
  and type are not read: a part of type text/plain with the body data of A and one child
  with the body data of B yields B in a list and A as a payload.
\<close>

theorem C10_precedence:
  "(d \<noteq> [] \<longrightarrow>
      extract_body h (Part hs mt (Some (Body (Some d))) (Some ps)) = decode_body d)
   \<and> extract_from_parts h [Part hs mt b (Some children)] = extract_from_parts h children
   \<and> child_text h (Part hs mt b (Some children))
       = str_join two_newlines (filter (\<lambda>t. t \<noteq> []) (map (child_text h) children))
   \<and> parts_loop h (Part hs mt b (Some children) # rest) texts
     = parts_loop h (Part hs mt None (Some children) # rest) texts
   \<and> extract_from_parts h
        [Part None (Some text_plain) (Some (Body (Some (ustr ''QQ==''))))
           (Some [Part None (Some text_plain) (Some (Body (Some (ustr ''Qg=='')))) None])]
     = Inr (ustr ''B'')
   \<and> extract_body h
        (Part None (Some text_plain) (Some (Body (Some (ustr ''QQ==''))))
           (Some [Part None (Some text_plain) (Some (Body (Some (ustr ''Qg=='')))) None]))
     = Inr (ustr ''A'')"
proof (intro conjI)
  show "d \<noteq> [] \<longrightarrow>
      extract_body h (Part hs mt (Some (Body (Some d))) (Some ps)) = decode_body d"
    by (simp add: extract_body_def)
  show "extract_from_parts h [Part hs mt b (Some children)] = extract_from_parts h children"
    by (rule extract_from_parts_nested)
  show "child_text h (Part hs mt b (Some children))
       = str_join two_newlines (filter (\<lambda>t. t \<noteq> []) (map (child_text h) children))"
    by (rule child_text_nested)
  show "parts_loop h (Part hs mt b (Some children) # rest) texts
     = parts_loop h (Part hs mt None (Some children) # rest) texts"
    by (simp del: extract_from_parts.simps)
  show "extract_from_parts h
        [Part None (Some text_plain) (Some (Body (Some (ustr ''QQ==''))))
           (Some [Part None (Some text_plain) (Some (Body (Some (ustr ''Qg=='')))) None])]
     = Inr (ustr ''B'')"
    by (simp add: eval_defs)
  show "extract_body h
        (Part None (Some text_plain) (Some (Body (Some (ustr ''QQ==''))))
           (Some [Part None (Some text_plain) (Some (Body (Some (ustr ''Qg=='')))) None]))
     = Inr (ustr ''A'')"
    by (simp add: eval_defs)
qed

theorem C10_precedence_witness:
  "ustr ''QQ=='' \<noteq> []
   \<and> extract_body failing_converter
       (Part None None (Some (Body (Some (ustr ''QQ==''))))
          (Some [Part None (Some text_plain) (Some (Body (Some (ustr ''Qg=='')))) None]))
     = Inr (ustr ''A'')
   \<and> extract_from_parts failing_converter
        [Part None (Some text_plain) (Some (Body (Some (ustr ''QQ==''))))
           (Some [Part None (Some text_plain) (Some (Body (Some (ustr ''Qg=='')))) None])]
     = Inr (ustr ''B'')
   \<and> child_text failing_converter
        (Part None None (Some (Body (Some (ustr ''QQ==''))))
           (Some [Part None (Some text_plain) (Some (Body (Some (ustr ''Qg=='')))) None]))
     = ustr ''B''"
  using C10_precedence[of "ustr ''QQ==''" failing_converter None None
          "[Part None (Some text_plain) (Some (Body (Some (ustr ''Qg=='')))) None]"
          "Some (Body (Some (ustr ''QQ=='')))"
          "[Part None (Some text_plain) (Some (Body (Some (ustr ''Qg=='')))) None]"]
  by (simp add: eval_defs child_text_def)

text \<open>
  C2, for a part in a list. A part without children whose type is neither text/plain
  nor text/html adds nothing to the extraction of the list it is in, wherever it stands:
  alone it extracts to the empty string, and a list with it extracts as the list without
  it. An application/pdf part with body data between parts that yield A and B leaves
  A, two newlines, B.
\<close>

theorem C2_nontext_leaf_in_list:
  "(dict_get mt [] \<noteq> text_plain \<longrightarrow> dict_get mt [] \<noteq> text_html \<longrightarrow>
      extract_from_parts h [Part hs mt b None] = Inr []
      \<and> child_text h (Part hs mt b None) = []
      \<and> parts_loop h (Part hs mt b None # rest) texts = parts_loop h rest texts
      \<and> extract_from_parts h (before @ Part hs mt b None # rest)
          = extract_from_parts h (before @ rest))
   \<and> extract_from_parts h
        [Part None (Some text_plain) (Some (Body (Some (ustr ''QQ=='')))) None,
         Part None (Some (ustr ''application/pdf'')) (Some (Body (Some (ustr ''QQ=='')))) None,
         Part None (Some text_plain) (Some (Body (Some (ustr ''Qg=='')))) None]
     = Inr [65, 10, 10, 66]"
proof (intro conjI impI)
  assume m: "dict_get mt [] \<noteq> text_plain" "dict_get mt [] \<noteq> text_html"
  show one: "extract_from_parts h [Part hs mt b None] = Inr []"
    using m by simp
  show "child_text h (Part hs mt b None) = []"
    using one by (simp add: child_text_def del: extract_from_parts.simps)
  show "parts_loop h (Part hs mt b None # rest) texts = parts_loop h rest texts"
    using m by simp
  have "part_texts h [Part hs mt b None] = []"
    using m by (simp add: part_texts_def)
  then have "part_texts h (before @ Part hs mt b None # rest) = part_texts h (before @ rest)"
    using part_texts_append[of h before "Part hs mt b None # rest"]
      part_texts_Cons[of h "Part hs mt b None" rest] part_texts_append[of h before rest]
    by simp
  then show "extract_from_parts h (before @ Part hs mt b None # rest)
          = extract_from_parts h (before @ rest)"
    by (simp only: extract_from_parts_eq)
next
  show "extract_from_parts h
        [Part None (Some text_plain) (Some (Body (Some (ustr ''QQ=='')))) None,
         Part None (Some (ustr ''application/pdf'')) (Some (Body (Some (ustr ''QQ=='')))) None,
         Part None (Some text_plain) (Some (Body (Some (ustr ''Qg=='')))) None]
     = Inr [65, 10, 10, 66]"
    by (simp add: eval_defs)
qed

theorem C2_nontext_leaf_in_list_witness:
  "dict_get (Some (ustr ''application/pdf'')) [] \<noteq> text_plain
   \<and> dict_get (Some (ustr ''application/pdf'')) [] \<noteq> text_html
   \<and> extract_from_parts failing_converter
        [Part None (Some (ustr ''application/pdf'')) (Some (Body (Some (ustr ''QQ=='')))) None]
      = Inr []
   \<and> child_text failing_converter
        (Part None (Some (ustr ''application/pdf'')) (Some (Body (Some (ustr ''QQ=='')))) None)
      = []
   \<and> extract_from_parts failing_converter
        ([Part None (Some text_plain) (Some (Body (Some (ustr ''QQ=='')))) None]
         @ Part None (Some (ustr ''application/pdf'')) (Some (Body (Some (ustr ''QQ=='')))) None
         # [Part None (Some text_plain) (Some (Body (Some (ustr ''Qg=='')))) None])
      = Inr [65, 10, 10, 66]"
  using C2_nontext_leaf_in_list[of "Some (ustr ''application/pdf'')" failing_converter None
          "Some (Body (Some (ustr ''QQ=='')))"
          "[Part None (Some text_plain) (Some (Body (Some (ustr ''Qg=='')))) None]" "[]"
          "[Part None (Some text_plain) (Some (Body (Some (ustr ''QQ=='')))) None]"]
  by (simp add: eval_defs)

text \<open>
  As the payload of a message such a leaf is not dropped. A payload without a type and
  with body data, the payload of the repository's test of \<open>extract_body\<close>, yields the
  decoded data, and so does a payload of type application/pdf.
\<close>

theorem C2_toplevel_counterexample:
  "dict_get None [] \<noteq> text_plain
   \<and> dict_get None [] \<noteq> text_html
   \<and> extract_body failing_converter
        (Part None None
           (Some (Body (Some (ustr ''VGhpcyBpcyBhIHRlc3QgZW1haWwgYm9keQ=='')))) None)
      = Inr (ustr ''This is a test email body'')
   \<and> ustr ''application/pdf'' \<noteq> text_plain
   \<and> ustr ''application/pdf'' \<noteq> text_html
   \<and> extract_body failing_converter
        (Part None (Some (ustr ''application/pdf'')) (Some (Body (Some (ustr ''QQ=='')))) None)
      = Inr (ustr ''A'')
   \<and> ustr ''A'' \<noteq> []"
  by (simp add: eval_defs)

text \<open>
  C3. A payload of type text/html with body data yields the decoded markup, and the
  converter is not applied, whatever it is; the same part in a list is converted.
  When the converter raises, \<open>clean_html\<close> returns its argument.
\<close>

theorem C3_toplevel_html_not_converted:
  "extract_body h (Part hs (Some text_html) (Some (Body (Some (ustr ''PGI-SGk8L2I-'')))) None)
     = Inr (ustr ''<b>Hi</b>'')
   \<and> extract_from_parts h
        [Part hs (Some text_html) (Some (Body (Some (ustr ''PGI-SGk8L2I-'')))) None]
     = clean_html h (ustr ''<b>Hi</b>'')
   \<and> clean_html h s = (case h s of Inl e \<Rightarrow> Inr s | Inr t \<Rightarrow> Inr t)"
proof (intro conjI)
  have d: "decode_body (ustr ''PGI-SGk8L2I-'') = Inr (ustr ''<b>Hi</b>'')"
    by (simp add: eval_defs)
  show "extract_body h (Part hs (Some text_html) (Some (Body (Some (ustr ''PGI-SGk8L2I-'')))) None)
     = Inr (ustr ''<b>Hi</b>'')"
    using d by (simp add: extract_body_def ustr_def)
  show "clean_html h s = (case h s of Inl e \<Rightarrow> Inr s | Inr t \<Rightarrow> Inr t)"
    by (simp add: clean_html_def try_except_def)
  obtain c where c: "clean_html h (ustr ''<b>Hi</b>'') = Inr c"
    using clean_html_Inr by blast
  have "c = [] \<or> c \<noteq> []" by simp
  then show "extract_from_parts h
        [Part hs (Some text_html) (Some (Body (Some (ustr ''PGI-SGk8L2I-'')))) None]
     = clean_html h (ustr ''<b>Hi</b>'')"
    using d c by (auto simp: dict_get_def Let_def)
qed

section \<open>Exceptions that leave the parser\<close>

lemma frames_agree:
  "nested_frames qs \<le> frames \<Longrightarrow> parts_loop_frames h frames qs texts = parts_loop h qs texts"
proof (induction "size_list size qs" arbitrary: qs texts frames rule: less_induct)
  case less
  show ?case
  proof (cases qs)
    case Nil
    then show ?thesis by simp
  next
    case (Cons p rest)
    obtain hs mt b sub where p: "p = Part hs mt b sub" by (cases p)
    have "size_list size rest < size_list size qs" using Cons by simp
    moreover have "nested_frames rest \<le> frames" using less.prems Cons p by simp
    ultimately have rest: "parts_loop_frames h frames rest t = parts_loop h rest t" for t
      by (rule less.hyps)
    show ?thesis
    proof (cases sub)
      case None
      then show ?thesis
        using Cons p
        by (simp add: rest Let_def del: extract_from_parts.simps
              split: option.splits sum.splits)
    next
      case (Some children)
      have "frames_needed children \<le> frames" using less.prems Cons p Some by simp
      then obtain f where f: "frames = Suc f" and n: "nested_frames children \<le> f"
        by (cases frames) simp_all
      have "size_list size children < size_list size qs" using Cons p Some by simp
      then have "parts_loop_frames h f children [] = parts_loop h children []"
        using n by (rule less.hyps)
      then have "extract_from_parts_frames h frames children = extract_from_parts h children"
        using f by simp
      then show ?thesis
        using Cons p Some
        by (simp add: rest del: extract_from_parts.simps extract_from_parts_frames.simps
              split: sum.splits)
    qed
  qed
qed

lemma extract_from_parts_frames_agree:
  "frames_needed ps \<le> frames \<Longrightarrow> extract_from_parts_frames h frames ps = extract_from_parts h ps"
proof -
  assume "frames_needed ps \<le> frames"
  then obtain f where f: "frames = Suc f" and n: "nested_frames ps \<le> f"
    by (cases frames) simp_all
  then show ?thesis using frames_agree[of ps f h "[]"] by simp
qed

lemma extract_body_frames_agree:
  "payload_frames p \<le> frames \<Longrightarrow> extract_body_frames h frames p = extract_body h p"
  by (auto simp: payload_frames_def extract_body_frames_def extract_body_def
        extract_body_rest_frames_def extract_body_rest_def extract_from_parts_frames_agree
      simp del: extract_from_parts.simps frames_needed.simps(1) split: option.splits)

lemma extract_body_Inr: "\<exists>t. extract_body h p = Inr t"
  using extract_from_parts_eq decode_body_Inr
  by (auto simp: extract_body_def extract_body_rest_def
           simp del: extract_from_parts.simps split: option.splits)

lemma nested_parts_raise:
  "extract_from_parts_frames h frames (nested_parts frames) = Inl RecursionError"
  by (induction frames) simp_all

text \<open>
  Where the frames suffice and the diagnostic of the date can be printed, a message is
  parsed to a dictionary with the eight keys.
\<close>

lemma parse_message_returns:
  assumes "payload_frames (dict_get (payload m) (Part None None None None)) \<le> frames"
    and "\<And>d e. print_error d e = Inr ()"
  shows "\<exists>r. parse_message lower h parsedate_to_datetime isoformat print_error frames m = Inr r
           \<and> dom r = {''id'', ''thread_id'', ''subject'', ''sender'', ''to'', ''date'',
                       ''body'', ''snippet''}"
proof -
  obtain t where "extract_body h (dict_get (payload m) (Part None None None None)) = Inr t"
    using extract_body_Inr by blast
  then have t: "extract_body_frames h frames (dict_get (payload m) (Part None None None None))
                  = Inr t"
    using assms(1) by (simp add: extract_body_frames_agree)
  have "\<exists>d. parse_date parsedate_to_datetime print_error s = Inr d" for s
    using assms(2) by (simp add: parse_date_def try_except_def split: sum.splits)
  then obtain d where d: "parse_date parsedate_to_datetime print_error
        (dict_get (extract_headers lower
           (dict_get (headers (dict_get (payload m) (Part None None None None))) [])
           (ustr ''date'')) []) = Inr d"
    by blast
  show ?thesis
    unfolding parse_message_def Let_def using t d by auto
qed

text \<open>
  C1. An exception leaves the parser on two paths. A payload whose parts are nested as
  deep as there are frames left makes \<open>_extract_from_parts\<close>, \<open>extract_body\<close> and
  \<open>parse_message\<close> raise \<open>RecursionError\<close>, whatever the number of frames is. When the
  date cannot be parsed and the print of the diagnostic raises, \<open>parse_date\<close> and
  \<open>parse_message\<close> raise what the print raised.
\<close>

theorem C1_exceptions_propagate:
  "extract_from_parts_frames h frames (nested_parts frames) = Inl RecursionError
   \<and> extract_body_frames h frames (Part hs mt None (Some (nested_parts frames)))
       = Inl RecursionError
   \<and> parse_message lower h parsedate_to_datetime isoformat print_error frames
        (Message i t (Some (Part hs mt None (Some (nested_parts frames)))) sn)
       = Inl RecursionError
   \<and> parse_date (\<lambda>d. Inl ValueError) (\<lambda>d e. Inl UnicodeEncodeError) date_str
       = Inl UnicodeEncodeError
   \<and> parse_message ascii_lower h (\<lambda>d. Inl ValueError) isoformat
        (\<lambda>d e. Inl UnicodeEncodeError) frames
        (Message i t
           (Some (Part (Some [Header (Some (ustr ''Date'')) (Some [99, 97, 102, 233])])
                    None None None)) sn)
       = Inl UnicodeEncodeError"
proof (intro conjI)
  show r: "extract_from_parts_frames h frames (nested_parts frames) = Inl RecursionError"
    by (rule nested_parts_raise)
  show b: "extract_body_frames h frames (Part hs mt None (Some (nested_parts frames)))
       = Inl RecursionError"
    using r by (simp add: extract_body_frames_def extract_body_rest_frames_def)
  show "parse_message lower h parsedate_to_datetime isoformat print_error frames
        (Message i t (Some (Part hs mt None (Some (nested_parts frames)))) sn)
       = Inl RecursionError"
    using b by (simp add: parse_message_def dict_get_def Let_def)
  show "parse_date (\<lambda>d. Inl ValueError) (\<lambda>d e. Inl UnicodeEncodeError) date_str
       = Inl UnicodeEncodeError"
    by (simp add: parse_date_def try_except_def)
  show "parse_message ascii_lower h (\<lambda>d. Inl ValueError) isoformat
        (\<lambda>d e. Inl UnicodeEncodeError) frames
        (Message i t
           (Some (Part (Some [Header (Some (ustr ''Date'')) (Some [99, 97, 102, 233])])
                    None None None)) sn)
       = Inl UnicodeEncodeError"
    by (simp add: parse_message_def parse_date_def try_except_def dict_get_def Let_def
          extract_body_frames_def extract_body_rest_frames_def extract_headers_def
          ascii_lower_def ustr_def)
qed

section \<open>Metadata of a body\<close>

lemma count_tokens_skip_space:
  "count_tokens False s = count_tokens False (dropWhile isspace s)"
  by (induction s) simp_all

lemma count_tokens_skip_token:
  "count_tokens True cs = count_tokens False (dropWhile (\<lambda>x. \<not> isspace x) cs)"
  by (induction cs) simp_all

lemma length_str_split: "length (str_split s) = count_tokens False s"
proof (induction s rule: str_split.induct)
  case (1 s)
  show ?case
  proof (cases "dropWhile isspace s")
    case Nil
    have c0: "count_tokens False s = 0"
      using count_tokens_skip_space[of s] unfolding Nil by simp
    have e: "str_split s = []"
      by (subst str_split.simps) (simp only: Nil list.case)
    show ?thesis unfolding e c0 by simp
  next
    case (Cons c cs)
    then have "\<not> isspace c"
      using hd_dropWhile[of isspace s] by simp
    then have "count_tokens False (c # cs) = 1 + count_tokens True cs" by simp
    then have "count_tokens False s
                 = 1 + count_tokens False (dropWhile (\<lambda>x. \<not> isspace x) cs)"
      using count_tokens_skip_space[of s] Cons count_tokens_skip_token[of cs] by simp
    moreover have "length (str_split s)
                 = 1 + length (str_split (dropWhile (\<lambda>x. \<not> isspace x) cs))"
      by (subst str_split.simps) (simp add: Cons del: str_split.simps)
    ultimately show ?thesis using 1[OF Cons] by (simp del: str_split.simps)
  qed
qed

text \<open>
  C7. The estimated reading time is the larger of 1 and the word count divided by 200,
  rounded down, where the word count is the number of whitespace-delimited tokens of
  the body; it is at least 1, and for the empty body, or no body, the word count is 0
  and the reading time is 1.
\<close>

theorem C7_reading_time:
  "estimated_read_time_minutes (calculate_metadata pe)
     = max 1 (word_count (calculate_metadata pe) div 200)
   \<and> word_count (calculate_metadata pe) = int (count_tokens False (dict_get (pe ''body'') []))
   \<and> 1 \<le> estimated_read_time_minutes (calculate_metadata pe)
   \<and> word_count (calculate_metadata [''body'' \<mapsto> []]) = 0
   \<and> estimated_read_time_minutes (calculate_metadata [''body'' \<mapsto> []]) = 1
   \<and> word_count (calculate_metadata Map.empty) = 0
   \<and> estimated_read_time_minutes (calculate_metadata Map.empty) = 1"
  by (simp add: calculate_metadata_def Let_def length_str_split dict_get_def
           del: str_split.simps)

section \<open>The sender name\<close>

lemma not_isspace_lt: "\<not> isspace 60"
  by (simp add: isspace_def)

lemma ws_lt_match_ws:
  assumes "\<forall>x \<in> set ws. isspace x"
  shows "ws_lt_match (ws @ 60 # post)"
proof -
  have "dropWhile isspace (ws @ 60 # post) = dropWhile isspace (60 # post)"
    using assms by (simp add: dropWhile_append2)
  then show ?thesis
    by (simp add: ws_lt_match_def not_isspace_lt)
qed

lemma lazy_group_hit: "ws_lt_match r \<Longrightarrow> lazy_group acc r = Some acc"
  by (cases r) (simp_all add: ws_lt_match_def)

lemma no_lt_no_match: "60 \<notin> set r \<Longrightarrow> \<not> ws_lt_match r"
proof
  assume a: "60 \<notin> set r" and m: "ws_lt_match r"
  then obtain cs where "dropWhile isspace r = 60 # cs"
    by (auto simp: ws_lt_match_def split: list.splits)
  then have "60 \<in> set (dropWhile isspace r)" by simp
  then have "60 \<in> set r" by (rule set_dropWhileD)
  with a show False by simp
qed

lemma lazy_group_none: "60 \<notin> set r \<Longrightarrow> lazy_group acc r = None"
proof (induction r arbitrary: acc)
  case Nil
  show ?case by simp
next
  case (Cons c cs)
  have "\<not> ws_lt_match (c # cs)" using Cons.prems by (rule no_lt_no_match)
  moreover have "lazy_group (acc @ [c]) cs = None" using Cons by simp
  ultimately show ?case by simp
qed

lemma lazy_group_core:
  "u \<noteq> [] \<Longrightarrow> \<not> isspace (last u) \<Longrightarrow> 60 \<notin> set u \<Longrightarrow> 10 \<notin> set u \<Longrightarrow> ws_lt_match rest
     \<Longrightarrow> lazy_group acc (u @ rest) = Some (acc @ u)"
proof (induction u arbitrary: acc)
  case Nil
  then show ?case by simp
next
  case (Cons c u)
  have "last (c # u) \<in> set (c # u)" by (rule last_in_set) simp
  then have "dropWhile isspace ((c # u) @ rest) = dropWhile isspace (c # u) @ rest"
    using Cons.prems(2) by (rule dropWhile_append1)
  moreover have ne: "dropWhile isspace (c # u) \<noteq> []"
    using Cons.prems(2) \<open>last (c # u) \<in> set (c # u)\<close> by (simp only: dropWhile_eq_Nil_conv) blast
  moreover have "hd (dropWhile isspace (c # u)) \<noteq> 60"
  proof -
    have "hd (dropWhile isspace (c # u)) \<in> set (dropWhile isspace (c # u))"
      using ne by (rule hd_in_set)
    then have "hd (dropWhile isspace (c # u)) \<in> set (c # u)" by (rule set_dropWhileD)
    with Cons.prems(3) show ?thesis by metis
  qed
  ultimately have nm: "\<not> ws_lt_match ((c # u) @ rest)"
    by (cases "dropWhile isspace (c # u)") (simp_all add: ws_lt_match_def)
  have c10: "c \<noteq> 10" using Cons.prems(4) by auto
  have step: "lazy_group acc ((c # u) @ rest) = lazy_group (acc @ [c]) (u @ rest)"
    using nm c10 by simp
  show ?case
  proof (cases "u = []")
    case True
    then show ?thesis using step lazy_group_hit[OF Cons.prems(5)] by simp
  next
    case False
    then have "lazy_group (acc @ [c]) (u @ rest) = Some ((acc @ [c]) @ u)"
      using Cons.prems by (intro Cons.IH) auto
    then show ?thesis using step by simp
  qed
qed

lemma sender_name_match_core:
  assumes lt: "60 \<in> set sender"
    and ne: "str_rstrip (takeWhile (\<lambda>c. c \<noteq> 60) sender) \<noteq> []"
    and nl: "10 \<notin> set (str_rstrip (takeWhile (\<lambda>c. c \<noteq> 60) sender))"
  shows "sender_name_match sender = Some (str_rstrip (takeWhile (\<lambda>c. c \<noteq> 60) sender))"
proof -
  let ?pre = "takeWhile (\<lambda>c. c \<noteq> 60) sender"
  let ?core = "str_rstrip ?pre"
  let ?ws = "rev (takeWhile isspace (rev ?pre))"
  have pre: "?pre = ?core @ ?ws"
  proof -
    have "?core @ ?ws = rev (takeWhile isspace (rev ?pre) @ dropWhile isspace (rev ?pre))"
      unfolding str_rstrip_def by (simp only: rev_append)
    also have "\<dots> = ?pre"
      by (simp only: takeWhile_dropWhile_id rev_rev_ident)
    finally show ?thesis by (rule sym)
  qed
  have ws: "\<forall>x \<in> set ?ws. isspace x"
    using set_takeWhileD[of _ isspace "rev ?pre"] by auto
  have dne: "dropWhile (\<lambda>c. c \<noteq> 60) sender \<noteq> []"
    using lt by (simp add: dropWhile_eq_Nil_conv)
  then have "\<not> hd (dropWhile (\<lambda>c. c \<noteq> 60) sender) \<noteq> 60"
    by (rule hd_dropWhile)
  then obtain post where dw: "dropWhile (\<lambda>c. c \<noteq> 60) sender = 60 # post"
    using dne by (cases "dropWhile (\<lambda>c. c \<noteq> 60) sender") auto
  have "sender = ?pre @ dropWhile (\<lambda>c. c \<noteq> 60) sender" by simp
  then have sender: "sender = ?core @ (?ws @ 60 # post)" using pre dw by (metis append.assoc)
  have m: "ws_lt_match (?ws @ 60 # post)" using ws by (rule ws_lt_match_ws)
  have "set ?core \<subseteq> set ?pre" using pre by (metis set_append Un_upper1)
  moreover have "60 \<notin> set ?pre" using set_takeWhileD[of 60 "\<lambda>c. c \<noteq> 60" sender] by blast
  ultimately have no60: "60 \<notin> set ?core" by blast
  have lastc: "\<not> isspace (last ?core)"
  proof -
    have d: "dropWhile isspace (rev ?pre) \<noteq> []" using ne by (simp add: str_rstrip_def)
    then have "\<not> isspace (hd (dropWhile isspace (rev ?pre)))" by (rule hd_dropWhile)
    then show ?thesis using d by (simp add: str_rstrip_def last_rev)
  qed
  obtain c u where cu: "?core = c # u" using ne by (cases ?core) auto
  have c10: "c \<noteq> 10" using nl cu by auto
  have lg: "lazy_group [c] (u @ (?ws @ 60 # post)) = Some ([c] @ u)"
  proof (cases "u = []")
    case True
    then show ?thesis using lazy_group_hit[OF m] by simp
  next
    case False
    moreover have "\<not> isspace (last u)" using lastc cu False by simp
    moreover have "60 \<notin> set u" "10 \<notin> set u" using no60 nl cu by auto
    ultimately show ?thesis using m by (intro lazy_group_core)
  qed
  have eq: "sender = c # (u @ (?ws @ 60 # post))" using sender cu by simp
  have "sender_name_match sender = sender_name_match (c # (u @ (?ws @ 60 # post)))"
    using eq by (rule arg_cong)
  also have "\<dots> = lazy_group [c] (u @ (?ws @ 60 # post))"
    using c10 by (simp add: sender_name_match_def)
  also have "\<dots> = Some ([c] @ u)" by (rule lg)
  finally show ?thesis using cu by simp
qed

text \<open>
  C8, as the code has it. A sender without an opening angle bracket (code point 60) is
  returned unchanged. When the text before the first bracket, without its trailing
  whitespace, is not empty and has no newline, the result is that text with the quote
  characters (code point 34) at both ends removed. A sender that starts with the bracket
  and has no other one is returned unchanged. The sender "Jane Doe" with the address
  jane@example.com in brackets gives Jane Doe.
\<close>

theorem C8_sender_name:
  "(60 \<notin> set sender \<longrightarrow> extract_sender_name sender = sender)
   \<and> (60 \<in> set sender \<longrightarrow>
        str_rstrip (takeWhile (\<lambda>c. c \<noteq> 60) sender) \<noteq> [] \<longrightarrow>
        10 \<notin> set (str_rstrip (takeWhile (\<lambda>c. c \<noteq> 60) sender)) \<longrightarrow>
        extract_sender_name sender
          = str_strip 34 (str_rstrip (takeWhile (\<lambda>c. c \<noteq> 60) sender)))
   \<and> (60 \<notin> set rest \<longrightarrow> extract_sender_name (60 # rest) = 60 # rest)
   \<and> extract_sender_name (34 # ustr ''Jane Doe'' @ 34 # ustr '' <jane@example.com>'')
       = ustr ''Jane Doe''"
proof (intro conjI impI)
  assume "60 \<notin> set sender"
  then show "extract_sender_name sender = sender"
    by (cases sender)
       (simp_all add: extract_sender_name_def sender_name_match_def lazy_group_none)
next
  assume "60 \<in> set sender"
    and "str_rstrip (takeWhile (\<lambda>c. c \<noteq> 60) sender) \<noteq> []"
    and "10 \<notin> set (str_rstrip (takeWhile (\<lambda>c. c \<noteq> 60) sender))"
  then show "extract_sender_name sender
          = str_strip 34 (str_rstrip (takeWhile (\<lambda>c. c \<noteq> 60) sender))"
    by (simp add: extract_sender_name_def sender_name_match_core)
next
  assume "60 \<notin> set rest"
  then show "extract_sender_name (60 # rest) = 60 # rest"
    by (simp add: extract_sender_name_def sender_name_match_def lazy_group_none)
next
  show "extract_sender_name (34 # ustr ''Jane Doe'' @ 34 # ustr '' <jane@example.com>'')
       = ustr ''Jane Doe''"
    by (simp add: extract_sender_name_def sender_name_match_def ws_lt_match_def isspace_def
          str_strip_def ustr_def)
qed

theorem C8_sender_name_witness:
  "60 \<notin> set (ustr ''jane@example.com'')
   \<and> extract_sender_name (ustr ''jane@example.com'') = ustr ''jane@example.com''
   \<and> 60 \<in> set (ustr ''Jane <j@x.org>'')
   \<and> str_rstrip (takeWhile (\<lambda>c. c \<noteq> 60) (ustr ''Jane <j@x.org>'')) \<noteq> []
   \<and> 10 \<notin> set (str_rstrip (takeWhile (\<lambda>c. c \<noteq> 60) (ustr ''Jane <j@x.org>'')))
   \<and> extract_sender_name (ustr ''Jane <j@x.org>'') = ustr ''Jane''
   \<and> 60 \<notin> set (ustr ''j@x.org>'')
   \<and> extract_sender_name (60 # ustr ''j@x.org>'') = 60 # ustr ''j@x.org>''"
  using C8_sender_name[of "ustr ''jane@example.com''" "[]"]
        C8_sender_name[of "ustr ''Jane <j@x.org>''" "ustr ''j@x.org>''"]
  by (simp add: ustr_def str_rstrip_def str_strip_def isspace_def)

text \<open>
  For a sender that is only an address in brackets the text before the first bracket
  is empty, and the result is the whole sender.
\<close>

theorem C8_leading_bracket_counterexample:
  "60 \<in> set (ustr ''<jane@example.com>'')
   \<and> takeWhile (\<lambda>c. c \<noteq> 60) (ustr ''<jane@example.com>'') = []
   \<and> extract_sender_name (ustr ''<jane@example.com>'') = ustr ''<jane@example.com>''
   \<and> ustr ''<jane@example.com>'' \<noteq> []"
  by (simp add: extract_sender_name_def sender_name_match_def ws_lt_match_def isspace_def
        ustr_def)

section \<open>Round trip through the transport encoding\<close>

lemma b64_char_table:
  "v < 64 \<Longrightarrow> table_a2b_base64 (urlsafe_decode_translation (urlsafe_b64_char v)) = Some v"
  by (auto simp: table_a2b_base64_def urlsafe_decode_translation_def urlsafe_b64_char_def)

lemma b64_char_not_pad:
  "v < 64 \<Longrightarrow> urlsafe_decode_translation (urlsafe_b64_char v) \<noteq> 61"
  by (auto simp: urlsafe_decode_translation_def urlsafe_b64_char_def)

lemma b64_char_ascii: "v < 64 \<Longrightarrow> \<not> 128 \<le> urlsafe_b64_char v"
  by (auto simp: urlsafe_b64_char_def)

lemma sextet1: "(a::nat) < 256 \<Longrightarrow> a div 4 < 64" by simp
lemma sextet2: "(a::nat) mod 4 * 16 + b div 16 < 64" if "b < 256"
proof -
  have "a mod 4 < 4" by simp
  then have "a mod 4 \<le> 3" by linarith
  moreover have "b div 16 < 16" using that by simp
  ultimately show ?thesis by linarith
qed
lemma sextet3: "(b::nat) mod 16 * 4 + c div 64 < 64" if "c < 256"
proof -
  have "b mod 16 < 16" by simp
  then have "b mod 16 \<le> 15" by linarith
  moreover have "c div 64 < 4" using that by simp
  ultimately show ?thesis by linarith
qed
lemma sextet4: "(c::nat) mod 64 < 64" by simp

lemma octet1: "(b::nat) < 256 \<Longrightarrow> a div 4 * 4 + (a mod 4 * 16 + b div 16) div 16 = a"
proof -
  assume "b < 256"
  then have "b div 16 < 16" by simp
  then have "(a mod 4 * 16 + b div 16) div 16 = a mod 4" by simp
  then show ?thesis by simp
qed

lemma octet2:
  "(b::nat) < 256 \<Longrightarrow> c < 256 \<Longrightarrow>
   (a mod 4 * 16 + b div 16) mod 16 * 16 + (b mod 16 * 4 + c div 64) div 4 = b"
proof -
  assume "b < 256" "c < 256"
  then have b: "b div 16 < 16" and c: "c div 64 < 4" by simp_all
  have "(a mod 4 * 16 + b div 16) mod 16 = b div 16" using b by simp
  moreover have "(b mod 16 * 4 + c div 64) div 4 = b mod 16" using c by simp
  ultimately show ?thesis by simp
qed

lemma octet3:
  "(c::nat) < 256 \<Longrightarrow> (b mod 16 * 4 + c div 64) mod 4 * 64 + c mod 64 = c"
proof -
  assume "c < 256"
  then have c: "c div 64 < 4" by simp
  have "(b mod 16 * 4 + c div 64) mod 4 = c div 64" using c by simp
  then show ?thesis by simp
qed

lemma octet2_pad: "(b::nat) < 256 \<Longrightarrow> (a mod 4 * 16 + b div 16) mod 16 * 16 + (b mod 16 * 4) div 4 = b"
  using octet2[of b 0 a] by simp

lemma octet1_pad: "a div 4 * 4 + (a mod 4 * 16) div 16 = (a::nat)"
  using octet1[of 0 a] by simp


lemma a2b_step:
  "v < 64 \<Longrightarrow>
   a2b_base64 (urlsafe_decode_translation (urlsafe_b64_char v) # rest) q l p out =
     (if q = 0 then a2b_base64 rest 1 v 0 out
      else if q = 1 then a2b_base64 rest 2 (v mod 16) 0 (out @ [l * 4 + v div 16])
      else if q = 2 then a2b_base64 rest 3 (v mod 4) 0 (out @ [l * 16 + v div 4])
      else a2b_base64 rest 0 0 0 (out @ [l * 64 + v]))"
  by (simp add: b64_char_table b64_char_not_pad)

lemma a2b_quad:
  assumes "a < 256" "b < 256" "c < 256"
  shows "a2b_base64
           (urlsafe_decode_translation (urlsafe_b64_char (a div 4))
            # urlsafe_decode_translation (urlsafe_b64_char (a mod 4 * 16 + b div 16))
            # urlsafe_decode_translation (urlsafe_b64_char (b mod 16 * 4 + c div 64))
            # urlsafe_decode_translation (urlsafe_b64_char (c mod 64)) # rest) 0 0 0 out
         = a2b_base64 rest 0 0 0 (out @ [a, b, c])"
proof -
  have "a2b_base64
           (urlsafe_decode_translation (urlsafe_b64_char (a div 4))
            # urlsafe_decode_translation (urlsafe_b64_char (a mod 4 * 16 + b div 16))
            # urlsafe_decode_translation (urlsafe_b64_char (b mod 16 * 4 + c div 64))
            # urlsafe_decode_translation (urlsafe_b64_char (c mod 64)) # rest) 0 0 0 out
        = a2b_base64 rest 0 0 0
            (((out @ [a div 4 * 4 + (a mod 4 * 16 + b div 16) div 16])
               @ [(a mod 4 * 16 + b div 16) mod 16 * 16 + (b mod 16 * 4 + c div 64) div 4])
               @ [(b mod 16 * 4 + c div 64) mod 4 * 64 + c mod 64])"
    using assms
    by (simp only: a2b_step sextet1 sextet2 sextet3 sextet4) simp
  then show ?thesis
    using assms by (simp only: octet1 octet2 octet3) simp
qed


lemma a2b_tail1:
  assumes "a < 256"
  shows "a2b_base64
           [urlsafe_decode_translation (urlsafe_b64_char (a div 4)),
            urlsafe_decode_translation (urlsafe_b64_char (a mod 4 * 16)), 61, 61] 0 0 0 out
         = Inr (out @ [a])"
proof -
  have v: "a mod 4 * 16 < 64" using sextet2[of 0 a] by simp
  have "a2b_base64
           [urlsafe_decode_translation (urlsafe_b64_char (a div 4)),
            urlsafe_decode_translation (urlsafe_b64_char (a mod 4 * 16)), 61, 61] 0 0 0 out
        = a2b_base64 [61, 61] 2 ((a mod 4 * 16) mod 16) 0
            (out @ [a div 4 * 4 + (a mod 4 * 16) div 16])"
    using assms v by (simp only: a2b_step sextet1) simp
  also have "\<dots> = Inr (out @ [a div 4 * 4 + (a mod 4 * 16) div 16])"
    by simp
  finally show ?thesis by (simp only: octet1_pad)
qed

lemma a2b_tail2:
  assumes "a < 256" "b < 256"
  shows "a2b_base64
           [urlsafe_decode_translation (urlsafe_b64_char (a div 4)),
            urlsafe_decode_translation (urlsafe_b64_char (a mod 4 * 16 + b div 16)),
            urlsafe_decode_translation (urlsafe_b64_char (b mod 16 * 4)), 61] 0 0 0 out
         = Inr (out @ [a, b])"
proof -
  have v: "b mod 16 * 4 < 64" using sextet3[of 0 b] by simp
  have "a2b_base64
           [urlsafe_decode_translation (urlsafe_b64_char (a div 4)),
            urlsafe_decode_translation (urlsafe_b64_char (a mod 4 * 16 + b div 16)),
            urlsafe_decode_translation (urlsafe_b64_char (b mod 16 * 4)), 61] 0 0 0 out
        = a2b_base64 [61] 3 ((b mod 16 * 4) mod 4) 0
            ((out @ [a div 4 * 4 + (a mod 4 * 16 + b div 16) div 16])
               @ [(a mod 4 * 16 + b div 16) mod 16 * 16 + (b mod 16 * 4) div 4])"
    using assms v by (simp only: a2b_step sextet1 sextet2) simp
  also have "\<dots> = Inr ((out @ [a div 4 * 4 + (a mod 4 * 16 + b div 16) div 16])
               @ [(a mod 4 * 16 + b div 16) mod 16 * 16 + (b mod 16 * 4) div 4])"
    by simp
  finally show ?thesis using assms by (simp only: octet1 octet2_pad) simp
qed

lemma translation_pad: "urlsafe_decode_translation 61 = 61"
  by (simp add: urlsafe_decode_translation_def)

lemma a2b_roundtrip:
  "list_all (\<lambda>b. b < 256) bs \<Longrightarrow>
   a2b_base64 (map urlsafe_decode_translation (urlsafe_b64encode bs)) 0 0 0 out = Inr (out @ bs)"
proof (induction bs arbitrary: out rule: urlsafe_b64encode.induct)
  case 1
  show ?case by simp
next
  case (2 a)
  then have "a < 256" by simp
  then show ?case using a2b_tail1[of a out] by (simp add: translation_pad)
next
  case (3 a b)
  then have "a < 256" "b < 256" by simp_all
  then show ?case using a2b_tail2[of a b out] by (simp add: translation_pad)
next
  case (4 a b c rest)
  then have abc: "a < 256" "b < 256" "c < 256" and r: "list_all (\<lambda>b. b < 256) rest"
    by simp_all
  have "a2b_base64 (map urlsafe_decode_translation (urlsafe_b64encode (a # b # c # rest))) 0 0 0 out
        = a2b_base64 (map urlsafe_decode_translation (urlsafe_b64encode rest)) 0 0 0
            (out @ [a, b, c])"
    using a2b_quad[OF abc] by simp
  also have "\<dots> = Inr ((out @ [a, b, c]) @ rest)"
    using r by (rule "4.IH")
  finally show ?case by simp
qed

lemma b64encode_ascii:
  "list_all (\<lambda>b. b < 256) bs \<Longrightarrow> \<not> list_ex (\<lambda>c. 128 \<le> c) (urlsafe_b64encode bs)"
proof (induction bs rule: urlsafe_b64encode.induct)
  case 1
  show ?case by simp
next
  case (2 a)
  then have "a < 256" by simp
  then show ?case
    using sextet2[of 0 a] by (simp add: b64_char_ascii)
next
  case (3 a b)
  then have "a < 256" "b < 256" by simp_all
  then show ?case
    using sextet3[of 0 b] by (simp add: b64_char_ascii sextet2)
next
  case (4 a b c rest)
  then have "a < 256" "b < 256" "c < 256" and "list_all (\<lambda>b. b < 256) rest"
    by simp_all
  then show ?case
    using "4.IH" by (simp add: b64_char_ascii sextet2 sextet3)
qed

lemma urlsafe_b64_roundtrip:
  "list_all (\<lambda>b. b < 256) bs \<Longrightarrow> urlsafe_b64decode (urlsafe_b64encode bs) = Inr bs"
  using a2b_roundtrip[of bs "[]"] b64encode_ascii[of bs]
  by (simp add: urlsafe_b64decode_def)


lemma utf8_rt1:
  "cp < 128 \<Longrightarrow> utf8_decode_ignore ([cp] @ rest) = cp # utf8_decode_ignore rest"
  by simp

lemma utf8_rt2:
  assumes "128 \<le> cp" "cp < 2048"
  shows "utf8_decode_ignore ([0xC0 + cp div 64, 0x80 + cp mod 64] @ rest)
           = cp # utf8_decode_ignore rest"
proof -
  define a c where "a = cp div 64" and "c = cp mod 64"
  have cp: "cp = a * 64 + c" by (simp add: a_def c_def)
  have c: "c < 64" by (simp add: c_def)
  have a: "2 \<le> a" "a < 32" using assms cp c by linarith+
  have v: "(192 + a) * 64 + (128 + c) - (192 * 64 + 128) = cp"
    using cp by (simp add: algebra_simps)
  have "utf8_decode_ignore ([192 + a, 128 + c] @ rest) = cp # utf8_decode_ignore rest"
    using a c v by (simp add: is_continuation_byte_def)
  then show ?thesis by (simp add: a_def c_def)
qed

lemma utf8_rt3:
  assumes "2048 \<le> cp" "cp < 65536" "cp < 55296 \<or> 57344 \<le> cp"
  shows "utf8_decode_ignore
           ([0xE0 + cp div 4096, 0x80 + cp div 64 mod 64, 0x80 + cp mod 64] @ rest)
           = cp # utf8_decode_ignore rest"
proof -
  define a b c where "a = cp div 64 div 64" and "b = cp div 64 mod 64" and "c = cp mod 64"
  have e: "cp div 4096 = a"
    using div_mult2_eq[of cp 64 64] by (simp add: a_def)
  have "cp = cp div 64 * 64 + c" by (simp add: c_def)
  moreover have "cp div 64 = a * 64 + b" by (simp add: a_def b_def)
  ultimately have cp: "cp = a * 4096 + b * 64 + c" by simp
  have c: "c < 64" by (simp add: c_def)
  have b: "b < 64" by (simp add: b_def)
  have a: "a < 16" using assms cp b c by linarith
  have a0: "a = 0 \<Longrightarrow> 32 \<le> b" using assms cp b c by linarith
  have a13: "a = 13 \<Longrightarrow> b < 32" using assms cp b c by linarith
  have v: "(224 + a) * 4096 + (128 + b) * 64 + (128 + c) - (224 * 4096 + 128 * 64 + 128) = cp"
    using cp by (simp add: algebra_simps)
  have "utf8_decode_ignore ([224 + a, 128 + b, 128 + c] @ rest) = cp # utf8_decode_ignore rest"
    using a b c a0 a13 v by (auto simp: is_continuation_byte_def)
  then show ?thesis by (simp add: e b_def c_def)
qed

lemma utf8_rt4:
  assumes "65536 \<le> cp" "cp < 1114112"
  shows "utf8_decode_ignore
           ([0xF0 + cp div 262144, 0x80 + cp div 4096 mod 64, 0x80 + cp div 64 mod 64,
             0x80 + cp mod 64] @ rest)
           = cp # utf8_decode_ignore rest"
proof -
  define a b c d where "a = cp div 64 div 64 div 64" and "b = cp div 64 div 64 mod 64"
    and "c = cp div 64 mod 64" and "d = cp mod 64"
  have e1: "cp div 4096 = cp div 64 div 64"
    using div_mult2_eq[of cp 64 64] by simp
  have e2: "cp div 262144 = a"
    using div_mult2_eq[of cp 4096 64] by (simp add: a_def e1)
  have "cp = cp div 64 * 64 + d" by (simp add: d_def)
  moreover have "cp div 64 = cp div 64 div 64 * 64 + c" by (simp add: c_def)
  moreover have "cp div 64 div 64 = a * 64 + b" by (simp add: a_def b_def)
  ultimately have cp: "cp = a * 262144 + b * 4096 + c * 64 + d" by simp
  have d: "d < 64" by (simp add: d_def)
  have c: "c < 64" by (simp add: c_def)
  have b: "b < 64" by (simp add: b_def)
  have a: "a < 5" using assms cp b c d by linarith
  have a0: "a = 0 \<Longrightarrow> 16 \<le> b" using assms cp b c d by linarith
  have a4: "a = 4 \<Longrightarrow> b < 16" using assms cp b c d by linarith
  have v: "(240 + a) * 262144 + (128 + b) * 4096 + (128 + c) * 64 + (128 + d)
             - (240 * 262144 + 128 * 4096 + 128 * 64 + 128) = cp"
    using cp by (simp add: algebra_simps)
  have "utf8_decode_ignore ([240 + a, 128 + b, 128 + c, 128 + d] @ rest)
          = cp # utf8_decode_ignore rest"
    using a b c d a0 a4 v by (auto simp: is_continuation_byte_def)
  then show ?thesis by (simp add: e1 e2 b_def c_def d_def)
qed

lemma utf8_roundtrip_cp:
  "scalar_value cp \<Longrightarrow>
   utf8_decode_ignore (utf8_encode_cp cp @ rest) = cp # utf8_decode_ignore rest"
proof -
  assume s: "scalar_value cp"
  consider "cp < 128" | "128 \<le> cp" "cp < 2048" | "2048 \<le> cp" "cp < 65536"
    | "65536 \<le> cp" by linarith
  then show ?thesis
  proof cases
    case 1
    then show ?thesis using utf8_rt1[of cp rest] by (simp add: utf8_encode_cp_def)
  next
    case 2
    then show ?thesis using utf8_rt2[of cp rest] by (simp add: utf8_encode_cp_def)
  next
    case 3
    moreover have "cp < 55296 \<or> 57344 \<le> cp" using s by (auto simp: scalar_value_def)
    ultimately show ?thesis using utf8_rt3[of cp rest] by (simp add: utf8_encode_cp_def)
  next
    case 4
    moreover have "cp < 1114112" using s by (auto simp: scalar_value_def)
    ultimately show ?thesis using utf8_rt4[of cp rest] by (simp add: utf8_encode_cp_def)
  qed
qed


lemma utf8_roundtrip:
  "list_all scalar_value t \<Longrightarrow>
   utf8_decode_ignore (utf8_encode t @ rest) = t @ utf8_decode_ignore rest"
proof (induction t)
  case Nil
  show ?case by (simp add: utf8_encode_def)
next
  case (Cons cp t)
  then have s: "scalar_value cp" and t: "list_all scalar_value t" by simp_all
  have "utf8_decode_ignore (utf8_encode (cp # t) @ rest)
        = utf8_decode_ignore (utf8_encode_cp cp @ (utf8_encode t @ rest))"
    by (simp add: utf8_encode_def)
  also have "\<dots> = cp # utf8_decode_ignore (utf8_encode t @ rest)"
    using s by (rule utf8_roundtrip_cp)
  finally show ?case using Cons.IH[OF t] by simp
qed

lemma utf8_encode_cp_bytes:
  "scalar_value cp \<Longrightarrow> list_all (\<lambda>b. b < 256) (utf8_encode_cp cp)"
proof -
  assume s: "scalar_value cp"
  then have lt: "cp < 1114112" by (auto simp: scalar_value_def)
  have m: "cp mod 64 < 64" "cp div 64 mod 64 < 64" "cp div 4096 mod 64 < 64" by simp_all
  have d2: "cp < 2048 \<Longrightarrow> cp div 64 < 32" by simp
  have d3: "cp < 65536 \<Longrightarrow> cp div 4096 < 16" by simp
  have d4: "cp div 262144 < 5" using lt by simp
  show ?thesis
    unfolding utf8_encode_cp_def using m d2 d3 d4 by auto
qed

lemma utf8_encode_bytes:
  "list_all scalar_value t \<Longrightarrow> list_all (\<lambda>b. b < 256) (utf8_encode t)"
  by (induction t) (simp_all add: utf8_encode_def utf8_encode_cp_bytes)

section \<open>Decoding a body\<close>

text \<open>
  C9. For a text whose code points are scalar values, decoding the URL-safe base64
  encoding of its UTF-8 encoding gives the text back.
\<close>

theorem C9_decode_roundtrip:
  "list_all scalar_value t \<Longrightarrow> decode_body (urlsafe_b64encode (utf8_encode t)) = Inr t"
proof -
  assume t: "list_all scalar_value t"
  then have "urlsafe_b64decode (urlsafe_b64encode (utf8_encode t)) = Inr (utf8_encode t)"
    by (intro urlsafe_b64_roundtrip utf8_encode_bytes)
  moreover have "utf8_decode_ignore (utf8_encode t) = t"
    using utf8_roundtrip[OF t, of "[]"] by simp
  ultimately show ?thesis
    by (simp add: decode_body_def try_except_def)
qed

theorem C9_decode_roundtrip_witness:
  "list_all scalar_value [72, 233, 10003, 128512]
   \<and> decode_body (urlsafe_b64encode (utf8_encode [72, 233, 10003, 128512]))
       = Inr [72, 233, 10003, 128512]"
  using C9_decode_roundtrip[of "[72, 233, 10003, 128512]"]
  by (simp add: scalar_value_def)

lemma leaf_plain_text:
  "extract_from_parts h [Part hs (Some text_plain) (Some (Body (Some e))) None] = decode_body e"
proof -
  obtain d where d: "decode_body e = Inr d" using decode_body_Inr by blast
  have "d = [] \<or> d \<noteq> []" by simp
  then show ?thesis
    using d by (auto simp: dict_get_def Let_def text_plain_def text_html_def ustr_def)
qed

lemma leaf_html_text:
  "decode_body e = Inr d \<Longrightarrow>
   extract_from_parts h [Part hs (Some text_html) (Some (Body (Some e))) None] = clean_html h d"
proof -
  assume d: "decode_body e = Inr d"
  obtain c where c: "clean_html h d = Inr c" using clean_html_Inr by blast
  have "c = [] \<or> c \<noteq> []" by simp
  then show ?thesis
    using d c by (auto simp: dict_get_def Let_def)
qed

lemma b64_raises_nonempty: "urlsafe_b64decode e = Inl x \<Longrightarrow> e \<noteq> []"
  by (auto simp: urlsafe_b64decode_def)

text \<open>
  C4, as the code has it. \<open>decode_body\<close> never raises. When the base64 step raises, it
  returns the empty string; a payload with that body data, and a text/plain part with
  it in a list, then yield the empty string, and a text/html part yields what the
  converter makes of the empty string. When the base64 step returns bytes,
  \<open>decode_body\<close> returns their decoding with errors ignored: text that is encoded in
  the bytes comes out as it is, whatever bytes follow it, a byte that cannot start a
  sequence is dropped, a lead byte that no continuation byte follows is dropped, and so
  is a lead byte at the end.
\<close>

theorem C4_decode_faults:
  "(\<exists>r. decode_body e = Inr r)
   \<and> (urlsafe_b64decode e = Inl x \<longrightarrow>
        decode_body e = Inr []
        \<and> extract_body h (Part hs mt (Some (Body (Some e))) sub) = Inr []
        \<and> extract_from_parts h [Part hs (Some text_plain) (Some (Body (Some e))) None] = Inr []
        \<and> extract_from_parts h [Part hs (Some text_html) (Some (Body (Some e))) None]
            = clean_html h [])
   \<and> (urlsafe_b64decode e = Inr bs \<longrightarrow> decode_body e = Inr (utf8_decode_ignore bs))
   \<and> (list_all scalar_value t \<longrightarrow>
        utf8_decode_ignore (utf8_encode t @ rest) = t @ utf8_decode_ignore rest)
   \<and> (128 \<le> bad \<longrightarrow> bad < 194 \<or> 245 \<le> bad \<longrightarrow>
        utf8_decode_ignore (bad # rest) = utf8_decode_ignore rest)
   \<and> (194 \<le> lead \<longrightarrow> lead < 245 \<longrightarrow> \<not> is_continuation_byte nxt \<longrightarrow>
        utf8_decode_ignore (lead # nxt # rest) = utf8_decode_ignore (nxt # rest))
   \<and> (194 \<le> lead \<longrightarrow> lead < 245 \<longrightarrow> utf8_decode_ignore [lead] = [])"
proof (intro conjI impI)
  show "\<exists>r. decode_body e = Inr r"
    using decode_body_Inr by blast
next
  assume x: "urlsafe_b64decode e = Inl x"
  show d: "decode_body e = Inr []"
    using x by (simp add: decode_body_def try_except_def)
  show "extract_body h (Part hs mt (Some (Body (Some e))) sub) = Inr []"
    using d b64_raises_nonempty[OF x] by (simp add: extract_body_def)
  show "extract_from_parts h [Part hs (Some text_plain) (Some (Body (Some e))) None] = Inr []"
    using d by (simp only: leaf_plain_text)
  show "extract_from_parts h [Part hs (Some text_html) (Some (Body (Some e))) None]
            = clean_html h []"
    using d by (rule leaf_html_text)
next
  assume "urlsafe_b64decode e = Inr bs"
  then show "decode_body e = Inr (utf8_decode_ignore bs)"
    by (simp add: decode_body_def try_except_def)
next
  assume "list_all scalar_value t"
  then show "utf8_decode_ignore (utf8_encode t @ rest) = t @ utf8_decode_ignore rest"
    by (rule utf8_roundtrip)
next
  assume "128 \<le> bad" "bad < 194 \<or> 245 \<le> bad"
  then show "utf8_decode_ignore (bad # rest) = utf8_decode_ignore rest"
    by auto
next
  assume "194 \<le> lead" "lead < 245" "\<not> is_continuation_byte nxt"
  then show "utf8_decode_ignore (lead # nxt # rest) = utf8_decode_ignore (nxt # rest)"
    by simp
next
  assume "194 \<le> lead" "lead < 245"
  then show "utf8_decode_ignore [lead] = []"
    by simp
qed

theorem C4_decode_faults_witness:
  "urlsafe_b64decode (ustr ''Q'') = Inl BinasciiError
   \<and> decode_body (ustr ''Q'') = Inr []
   \<and> extract_body failing_converter (Part None None (Some (Body (Some (ustr ''Q'')))) None)
       = Inr []
   \<and> extract_from_parts failing_converter
        [Part None (Some text_html) (Some (Body (Some (ustr ''Q'')))) None]
       = clean_html failing_converter []
   \<and> urlsafe_b64decode (ustr ''Qf8='') = Inr [65, 255]
   \<and> decode_body (ustr ''Qf8='') = Inr (utf8_decode_ignore [65, 255])
   \<and> list_all scalar_value [72]
   \<and> utf8_decode_ignore (utf8_encode [72] @ [255, 105]) = [72] @ utf8_decode_ignore [255, 105]
   \<and> (128::nat) \<le> 255 \<and> (245::nat) \<le> 255
   \<and> utf8_decode_ignore (255 # [105]) = utf8_decode_ignore [105]
   \<and> (194::nat) \<le> 195 \<and> (195::nat) < 245 \<and> \<not> is_continuation_byte 65
   \<and> utf8_decode_ignore (195 # 65 # [105]) = utf8_decode_ignore (65 # [105])
   \<and> utf8_decode_ignore [195] = []"
  using C4_decode_faults[of "ustr ''Q''" BinasciiError failing_converter None None None
          "[]" "[72]" "[255, 105]" 255 195 65]
        C4_decode_faults[of "ustr ''Qf8=''" BinasciiError failing_converter None None None
          "[65, 255]" "[72]" "[105]" 255 195 65]
  by (simp add: urlsafe_b64decode_def urlsafe_decode_translation_def table_a2b_base64_def
        ustr_def scalar_value_def is_continuation_byte_def)

text \<open>
  The bytes 65, 255 are not UTF-8, and the body that encodes them decodes to the one
  letter A, not to the empty string.
\<close>

theorem C4_invalid_utf8_counterexample:
  "urlsafe_b64decode (ustr ''Qf8='') = Inr [65, 255]
   \<and> decode_body (ustr ''Qf8='') = Inr (ustr ''A'')
   \<and> ustr ''A'' \<noteq> []"
  by (simp add: decode_body_def try_except_def urlsafe_b64decode_def
        urlsafe_decode_translation_def table_a2b_base64_def ustr_def)

end
